theory Spec2Isabelle
  imports Complex_Main "HOL-Library.Signed_Division"
begin

chapter \<open>RTcmix: bus configuration, Minc operators and builtins, tempo map\<close>

text \<open>
  A shallow embedding of the parts of RTcmix that the properties below are about:
  \<^item> \<^verbatim>\<open>src/rtcmix/bus_config.cpp\<close>: bus-name parsing, the loop check, the bus graph and
    the aux play order;
  \<^item> \<^verbatim>\<open>src/parser/minc/Node.cpp\<close>: the numeric operators, the argument-list prologue of a
    Minc function and the call protocol;
  \<^item> the Minc builtin \<^verbatim>\<open>substring\<close>;
  \<^item> the tempo map (\<^verbatim>\<open>tbase\<close>, \<^verbatim>\<open>tempo\<close>, \<^verbatim>\<open>time_beat\<close>, \<^verbatim>\<open>beat_time\<close>).

  C strings are \<open>string\<close>s without the terminating NUL; a read past the terminator, an
  out-of-bounds array access and every other undefined behaviour of C is the value
  \<open>None\<close> of an option type.
\<close>

section \<open>Bus names\<close>

subsection \<open>Error codes and bus types\<close>

datatype ErrCode =
    NO_ERR | LOOP_ERR | INVAL_BUS_ERR | INVAL_BUS_CHAN_ERR | FUNCTION_NOT_FOUND
  | PARAM_ERROR | MEMORY_ERROR | SYSTEM_ERROR | UNKNOWN_ERR

datatype BusType =
  BUS_IN | BUS_OUT | BUS_AUX_IN | BUS_AUX_OUT | BUS_NONE_IN | BUS_NONE_OUT

subsection \<open>The C library calls used by the parser\<close>

definition isspace_c :: "char \<Rightarrow> bool" where
  "isspace_c c = (let n = (of_char c :: nat) in n = 32 \<or> (9 \<le> n \<and> n \<le> 13))"

definition isdigit_c :: "char \<Rightarrow> bool" where
  "isdigit_c c = (let n = (of_char c :: nat) in 48 \<le> n \<and> n \<le> 57)"

text \<open>The value of a run of decimal digits, most significant first.\<close>

fun digits_val :: "int \<Rightarrow> string \<Rightarrow> int" where
  "digits_val acc [] = acc"
| "digits_val acc (c # cs) = digits_val (acc * 10 + (int (of_char c) - 48)) cs"

definition LONG_MAX :: int where "LONG_MAX = 2 ^ 63 - 1"
definition LONG_MIN :: int where "LONG_MIN = - (2 ^ 63)"

text \<open>
  \<^verbatim>\<open>strtol(str, &pos, 10)\<close>: white space, an optional sign, decimal digits. \<open>None\<close> when
  there is no digit to convert (\<^verbatim>\<open>pos == str\<close>); otherwise the mathematical value, which
  the caller compares with the range of \<^verbatim>\<open>long\<close> (\<^verbatim>\<open>ERANGE\<close>).
\<close>

definition strtol_c :: "string \<Rightarrow> int option" where
  "strtol_c str =
     (let s1 = dropWhile isspace_c str;
          neg = (s1 \<noteq> [] \<and> hd s1 = CHR ''-'');
          s2 = (if s1 \<noteq> [] \<and> (hd s1 = CHR ''-'' \<or> hd s1 = CHR ''+'') then tl s1 else s1);
          ds = takeWhile isdigit_c s2
      in if ds = [] then None
         else Some (if neg then - digits_val 0 ds else digits_val 0 ds))"

text \<open>The conversion \<^verbatim>\<open>(int)along\<close> of a 64-bit \<^verbatim>\<open>long\<close>: the low 32 bits, two's complement.\<close>

definition int_of_long :: "int \<Rightarrow> int" where
  "int_of_long v = (v + 2 ^ 31) mod 2 ^ 32 - 2 ^ 31"

text \<open>\<^verbatim>\<open>strtoint\<close>: \<open>None\<close> is the return value \<^verbatim>\<open>-1\<close>, \<open>Some n\<close> is \<^verbatim>\<open>0\<close> with \<^verbatim>\<open>*num = n\<close>.\<close>

definition strtoint :: "string \<Rightarrow> int option" where
  "strtoint str =
     (case strtol_c str of
        None \<Rightarrow> None
      | Some along \<Rightarrow>
          if along > LONG_MAX \<or> along < LONG_MIN then None
          else Some (int_of_long along))"

text \<open>\<^verbatim>\<open>strchr(s, c)\<close>: the rest of the string from the first \<open>c\<close> on, \<open>None\<close> for \<^verbatim>\<open>NULL\<close>.\<close>

definition strchr_c :: "string \<Rightarrow> char \<Rightarrow> string option" where
  "strchr_c s c = (if c \<in> set s then Some (dropWhile (\<lambda>x. x \<noteq> c) s) else None)"

text \<open>
  \<^verbatim>\<open>&busname[n]\<close> used as a string: defined as long as it does not point past the
  terminating NUL.
\<close>

definition str_from :: "string \<Rightarrow> nat \<Rightarrow> string option" where
  "str_from s n = (if n \<le> length s then Some (drop n s) else None)"

subsection \<open>parse\_bus\_chan and parse\_bus\_name\<close>

text \<open>
  \<^verbatim>\<open>parse_bus_chan\<close> returns the error code, or \<^verbatim>\<open>NO_ERR\<close> with \<^verbatim>\<open>*startchan\<close> and
  \<^verbatim>\<open>*endchan\<close>.
\<close>

definition parse_bus_chan :: "string \<Rightarrow> int \<Rightarrow> ErrCode + (int \<times> int)" where
  "parse_bus_chan numstr maxBus =
     (case strtoint numstr of
        None \<Rightarrow> Inl INVAL_BUS_CHAN_ERR
      | Some startchan \<Rightarrow>
          (case (case strchr_c numstr (CHR ''-'') of
                   Some p \<Rightarrow> strtoint (tl p)
                 | None \<Rightarrow> Some startchan) of
             None \<Rightarrow> Inl INVAL_BUS_CHAN_ERR
           | Some endchan \<Rightarrow>
               if startchan \<ge> maxBus \<or> endchan \<ge> maxBus then Inl INVAL_BUS_CHAN_ERR
               else Inr (startchan, endchan)))"

text \<open>
  \<^verbatim>\<open>parse_bus_name\<close>: the outer \<open>None\<close> is undefined behaviour (the name is shorter than
  the prefix that is skipped); \<open>Inl\<close> is the error code returned; \<open>Inr\<close> is \<^verbatim>\<open>NO_ERR\<close>
  with the type and the two channels. The warnings it prints are left out.
\<close>

definition with_type :: "BusType \<Rightarrow> ErrCode + (int \<times> int) \<Rightarrow> ErrCode + (BusType \<times> int \<times> int)" where
  "with_type t r = (case r of Inl e \<Rightarrow> Inl e | Inr (a, b) \<Rightarrow> Inr (t, a, b))"

definition parse_bus_name ::
  "string option \<Rightarrow> int \<Rightarrow> (ErrCode + (BusType \<times> int \<times> int)) option" where
  "parse_bus_name busname maxBus =
     (case busname of
        None \<Rightarrow> Some (Inl INVAL_BUS_ERR)
      | Some [] \<Rightarrow> Some (Inl INVAL_BUS_ERR)
      | Some (c # cs) \<Rightarrow>
          if c = CHR ''i'' then
            map_option (\<lambda>p. with_type BUS_IN (parse_bus_chan p maxBus)) (str_from (c # cs) 2)
          else if c = CHR ''o'' then
            map_option (\<lambda>p. with_type BUS_OUT (parse_bus_chan p maxBus)) (str_from (c # cs) 3)
          else if c = CHR ''a'' then
            (if strchr_c (c # cs) (CHR ''i'') \<noteq> None then
               map_option (\<lambda>p. with_type BUS_AUX_IN (parse_bus_chan p maxBus)) (str_from (c # cs) 3)
             else if strchr_c (c # cs) (CHR ''o'') \<noteq> None then
               map_option (\<lambda>p. with_type BUS_AUX_OUT (parse_bus_chan p maxBus)) (str_from (c # cs) 3)
             else Some (Inl INVAL_BUS_ERR))
          else if c = CHR ''c'' then
            (case str_from (c # cs) 5 of
               None \<Rightarrow> None
             | Some p \<Rightarrow>
                 if strchr_c p (CHR ''i'') \<noteq> None then
                   Some (with_type BUS_NONE_IN (parse_bus_chan p maxBus))
                 else if strchr_c p (CHR ''o'') \<noteq> None then
                   Some (with_type BUS_NONE_OUT (parse_bus_chan p maxBus))
                 else Some (Inl INVAL_BUS_ERR))
          else Some (Inl INVAL_BUS_ERR))"

subsection \<open>What the parser checks about a range\<close>

lemma parse_bus_chan_bounds:
  "parse_bus_chan s n = Inr (a, b) \<Longrightarrow> a < n \<and> b < n"
  by (auto simp: parse_bus_chan_def split: option.splits if_splits)

lemma parse_bus_chan_mono:
  assumes "parse_bus_chan s m = Inr (a, b)"
  shows "parse_bus_chan s n = (if a < n \<and> b < n then Inr (a, b) else Inl INVAL_BUS_CHAN_ERR)"
  using assms by (auto simp: parse_bus_chan_def split: option.splits if_splits)

text \<open>
  Claim C9, as the code has it. A bus name that \<^verbatim>\<open>parse_bus_name\<close> accepts for a bus count
  \<open>m\<close> has both of its endpoints below \<open>m\<close>; for any other bus count \<open>n\<close> the same name
  is accepted exactly when both endpoints are below \<open>n\<close>, and is rejected with
  \<^verbatim>\<open>INVAL_BUS_CHAN_ERR\<close> otherwise. The parser does not compare the two endpoints with each
  other, and has no lower bound for them.
\<close>

theorem parse_bus_name_range:
  assumes "parse_bus_name (Some s) m = Some (Inr (t, a, b))"
  shows "a < m \<and> b < m \<and>
         parse_bus_name (Some s) n =
           Some (if a < n \<and> b < n then Inr (t, a, b) else Inl INVAL_BUS_CHAN_ERR)"
proof -
  have step: "a < m \<and> b < m \<and> with_type ty (parse_bus_chan p n) =
        (if a < n \<and> b < n then Inr (t, a, b) else Inl INVAL_BUS_CHAN_ERR)"
    if h: "with_type ty (parse_bus_chan p m) = Inr (t, a, b)" for ty p
  proof -
    from h have ty: "ty = t" and pc: "parse_bus_chan p m = Inr (a, b)"
      by (auto simp: with_type_def split: sum.splits)
    from parse_bus_chan_bounds[OF pc] parse_bus_chan_mono[OF pc, of n]
    show ?thesis by (simp add: with_type_def ty)
  qed
  from assms show ?thesis
    by (auto simp: parse_bus_name_def split: list.splits if_splits option.splits dest!: step)
qed

text \<open>The name \<^verbatim>\<open>aux 2-5 in\<close> with 8 buses, and the same name with 4 buses.\<close>

theorem parse_bus_name_range_witness:
  "parse_bus_name (Some ''aux 2-5 in'') 8 = Some (Inr (BUS_AUX_IN, 2, 5)) \<and>
   (2::int) < 8 \<and> (5::int) < 8 \<and>
   parse_bus_name (Some ''aux 2-5 in'') 4 = Some (Inl INVAL_BUS_CHAN_ERR)"
proof -
  have h: "parse_bus_name (Some ''aux 2-5 in'') 8 = Some (Inr (BUS_AUX_IN, 2, 5))"
    by code_simp
  from parse_bus_name_range[OF h, of 4] h show ?thesis by simp
qed

text \<open>
  The reversed range \<^verbatim>\<open>in5-2\<close> is accepted with 8 buses: the claim's \<open>b \<ge> a\<close> does not
  hold of an accepted name.
\<close>

theorem parse_bus_name_reversed_counterexample:
  "parse_bus_name (Some ''in5-2'') 8 = Some (Inr (BUS_IN, 5, 2)) \<and> \<not> ((2::int) \<ge> 5)"
proof -
  have "parse_bus_name (Some ''in5-2'') 8 = Some (Inr (BUS_IN, 5, 2))"
    by code_simp
  then show ?thesis by simp
qed

section \<open>Minc values\<close>

text \<open>
  \<^verbatim>\<open>MincFloat\<close> is a C \<^verbatim>\<open>double\<close>, and the tempo map works on \<^verbatim>\<open>float\<close>. Both are modelled
  by their values: a finite number, the two infinities, or NaN. Finite results are exact
  (rounding to the format is not modelled, nor is the sign of zero), so nothing below
  speaks about rounding error. Comparisons with NaN are false, as in IEEE 754.
\<close>

datatype ieee = Finite real | PlusInf | MinusInf | NaN

fun fp_lt :: "ieee \<Rightarrow> ieee \<Rightarrow> bool" where
  "fp_lt NaN _ = False"
| "fp_lt _ NaN = False"
| "fp_lt (Finite x) (Finite y) = (x < y)"
| "fp_lt (Finite x) PlusInf = True"
| "fp_lt (Finite x) MinusInf = False"
| "fp_lt PlusInf _ = False"
| "fp_lt MinusInf (Finite y) = True"
| "fp_lt MinusInf PlusInf = True"
| "fp_lt MinusInf MinusInf = False"

fun fp_eq :: "ieee \<Rightarrow> ieee \<Rightarrow> bool" where
  "fp_eq NaN _ = False"
| "fp_eq _ NaN = False"
| "fp_eq a b = (a = b)"

definition fp_le :: "ieee \<Rightarrow> ieee \<Rightarrow> bool" where
  "fp_le a b = (fp_lt a b \<or> fp_eq a b)"

definition fp_gt :: "ieee \<Rightarrow> ieee \<Rightarrow> bool" where
  "fp_gt a b = fp_lt b a"

text \<open>Conversion to an integer type truncates towards zero; out of range it is undefined.\<close>

definition trunc_real :: "real \<Rightarrow> int" where
  "trunc_real r = (if r \<ge> 0 then \<lfloor>r\<rfloor> else \<lceil>r\<rceil>)"

definition INT_MAX :: int where "INT_MAX = 2 ^ 31 - 1"
definition INT_MIN :: int where "INT_MIN = - (2 ^ 31)"

definition int_of_fp :: "ieee \<Rightarrow> int option" where
  "int_of_fp v =
     (case v of
        Finite r \<Rightarrow> if INT_MIN \<le> trunc_real r \<and> trunc_real r \<le> INT_MAX then Some (trunc_real r) else None
      | _ \<Rightarrow> None)"

definition long_of_fp :: "ieee \<Rightarrow> int option" where
  "long_of_fp v =
     (case v of
        Finite r \<Rightarrow> if LONG_MIN \<le> trunc_real r \<and> trunc_real r \<le> LONG_MAX then Some (trunc_real r) else None
      | _ \<Rightarrow> None)"

datatype MincDataType =
    MincVoidType | MincFloatType | MincStringType | MincHandleType | MincListType
  | MincMapType | MincStructType | MincFunctionType

text \<open>
  A \<^verbatim>\<open>MincValue\<close>: the tag and the payload. Pointer payloads are options (\<open>None\<close> is
  \<^verbatim>\<open>NULL\<close>); handles, maps, structs and functions are identified by an address.
\<close>

datatype MincValue =
    MVoid
  | MFloat ieee
  | MString "string option"
  | MHandle "nat option"
  | MList "MincValue list option"
  | MMap "nat option"
  | MStruct "nat option"
  | MFunction "nat option"

fun dataType :: "MincValue \<Rightarrow> MincDataType" where
  "dataType MVoid = MincVoidType"
| "dataType (MFloat _) = MincFloatType"
| "dataType (MString _) = MincStringType"
| "dataType (MHandle _) = MincHandleType"
| "dataType (MList _) = MincListType"
| "dataType (MMap _) = MincMapType"
| "dataType (MStruct _) = MincStructType"
| "dataType (MFunction _) = MincFunctionType"

text \<open>What reaches the diagnostic channel: \<^verbatim>\<open>minc_warn\<close>, \<^verbatim>\<open>minc_die\<close>, \<^verbatim>\<open>minc_internal_error\<close>.\<close>

datatype diag = Warn string | Die string | InternalError string

section \<open>The builtin substring\<close>

definition NUL :: char where "NUL = CHR 0x00"

text \<open>
  The part of \<^verbatim>\<open>_minc_substring\<close> after its argument checks, on the string and the two
  indices. \<open>None\<close> is undefined behaviour: a negative allocation size, a source pointer past
  the string, or the terminator written outside the buffer. The buffer \<^verbatim>\<open>sbuffer\<close> holds
  \<^verbatim>\<open>newlen\<close> characters: \<^verbatim>\<open>strncpy\<close> copies the rest of the string and its NUL; \<^verbatim>\<open>strdup\<close>
  reads it up to the first NUL.
\<close>

definition substring_idx :: "string \<Rightarrow> int \<Rightarrow> int \<Rightarrow> (diag list \<times> string option) option" where
  "substring_idx theString startIdx endIdx0 =
     (let len = int (length theString) in
      if startIdx < 0 \<or> endIdx0 \<le> startIdx then
        Some ([Warn ''substring: illegal indices''], None)
      else
        let w = (if endIdx0 > len - 1
                 then [Warn ''substring: end index out of range - using string endpoint'']
                 else []);
            endIdx = (if endIdx0 > len - 1 then len - 1 else endIdx0);
            newlen = len - startIdx + 1
        in if newlen < 0 \<or> startIdx > len then None
           else
             let sbuffer = take (nat newlen) (drop (nat startIdx) theString @ [NUL]);
                 k = endIdx - startIdx
             in if k < 0 \<or> k \<ge> newlen then None
                else Some (w, Some (takeWhile (\<lambda>c. c \<noteq> NUL) (sbuffer[nat k := NUL]))))"

text \<open>\<^verbatim>\<open>_minc_substring(args, nargs)\<close> with \<open>nargs = length args\<close>.\<close>

definition minc_substring :: "MincValue list \<Rightarrow> (diag list \<times> string option) option" where
  "minc_substring args =
     (if length args \<noteq> 3 then
        Some ([Warn ''substring: must have three arguments (string, start_index, end_index)''], None)
      else if dataType (args ! 0) \<noteq> MincStringType then
        Some ([Warn ''substring: first argument must be a string''], None)
      else if dataType (args ! 1) \<noteq> MincFloatType \<or> dataType (args ! 2) \<noteq> MincFloatType then
        Some ([Warn ''substring: second and third arguments must be floats''], None)
      else
        (case (args ! 0, args ! 1, args ! 2) of
           (MString (Some theString), MFloat a, MFloat b) \<Rightarrow>
             (case (int_of_fp a, int_of_fp b) of
                (Some startIdx, Some endIdx) \<Rightarrow> substring_idx theString startIdx endIdx
              | _ \<Rightarrow> None)
         | _ \<Rightarrow> None))"

subsection \<open>What substring returns\<close>

lemma takeWhile_buf:
  assumes "NUL \<notin> set xs" "k \<le> length xs"
  shows "takeWhile (\<lambda>c. c \<noteq> NUL) ((xs @ [NUL])[k := NUL]) = take k xs"
proof -
  have "(xs @ [NUL])[k := NUL] = take k xs @ NUL # drop (Suc k) (xs @ [NUL])"
    using assms by (simp add: upd_conv_take_nth_drop)
  moreover have "\<forall>c \<in> set (take k xs). c \<noteq> NUL"
    using assms(1) by (metis in_set_takeD)
  ultimately show ?thesis by (simp add: takeWhile_append2)
qed

lemma substring_idx_chars:
  assumes "NUL \<notin> set s" "0 \<le> i" "i < j" "i < int (length s)"
  shows "substring_idx s i j =
     Some (if j > int (length s) - 1
           then [Warn ''substring: end index out of range - using string endpoint''] else [],
           Some (take (nat (min j (int (length s) - 1) - i)) (drop (nat i) s)))"
proof -
  let ?xs = "drop (nat i) s"
  let ?k = "nat (min j (int (length s) - 1) - i)"
  have n: "NUL \<notin> set ?xs" using assms(1) by (metis in_set_dropD)
  have k: "?k \<le> length ?xs" using assms by auto
  have full: "take (nat (int (length s) - i + 1)) (?xs @ [NUL]) = ?xs @ [NUL]"
    using assms by (simp add: nat_add_distrib nat_diff_distrib)
  show ?thesis
    using assms takeWhile_buf[OF n k]
    by (auto simp: substring_idx_def Let_def full min_def)
qed

lemma int_of_fp_of_int:
  "INT_MIN \<le> i \<Longrightarrow> i \<le> INT_MAX \<Longrightarrow> int_of_fp (Finite (of_int i)) = Some i"
  by (simp add: int_of_fp_def trunc_real_def)

lemma minc_substring_idx:
  assumes "INT_MIN \<le> i" "i \<le> INT_MAX" "INT_MIN \<le> j" "j \<le> INT_MAX"
  shows "minc_substring [MString (Some s), MFloat (Finite (of_int i)), MFloat (Finite (of_int j))]
         = substring_idx s i j"
  using assms by (simp add: minc_substring_def int_of_fp_of_int)

lemma take_take_drop:
  "a \<le> b \<Longrightarrow> take a xs @ take (b - a) (drop a xs) = take b xs"
  by (metis add_diff_cancel_left' le_Suc_ex take_add)

text \<open>
  Claim C6, as the code has it. For a C string \<open>s\<close> and indices \<open>0 \<le> i < j < len(s)\<close> and
  any \<open>k > j\<close> (in particular \<open>k = len(s)\<close>), \<^verbatim>\<open>substring(s, i, j)\<close> followed by
  \<^verbatim>\<open>substring(s, j, k)\<close> is \<^verbatim>\<open>substring(s, i, k)\<close>, and \<^verbatim>\<open>substring(s, i, j)\<close> is the characters
  \<open>s[i..j)\<close>, returned without a warning. A negative start and a range whose end is not
  above its start (reversed or empty) give the warning "illegal indices" and a null
  result.
\<close>

theorem substring_concat:
  assumes nul: "NUL \<notin> set s" and len: "int (length s) \<le> INT_MAX"
  shows "(0 \<le> i \<and> i < j \<and> j < int (length s) \<and> j < k \<and> k \<le> INT_MAX \<longrightarrow>
          (\<exists>w2 w3 x y z.
             minc_substring [MString (Some s), MFloat (Finite (of_int i)), MFloat (Finite (of_int j))]
               = Some ([], Some x) \<and>
             minc_substring [MString (Some s), MFloat (Finite (of_int j)), MFloat (Finite (of_int k))]
               = Some (w2, Some y) \<and>
             minc_substring [MString (Some s), MFloat (Finite (of_int i)), MFloat (Finite (of_int k))]
               = Some (w3, Some z) \<and>
             x = take (nat (j - i)) (drop (nat i) s) \<and> x @ y = z)) \<and>
         (INT_MIN \<le> a \<and> a \<le> INT_MAX \<and> INT_MIN \<le> b \<and> b \<le> INT_MAX \<and> (a < 0 \<or> b \<le> a) \<longrightarrow>
          minc_substring [MString (Some s), MFloat (Finite (of_int a)), MFloat (Finite (of_int b))]
            = Some ([Warn ''substring: illegal indices''], None))"
proof (intro conjI impI)
  assume h: "0 \<le> i \<and> i < j \<and> j < int (length s) \<and> j < k \<and> k \<le> INT_MAX"
  have rng: "INT_MIN \<le> i" "i \<le> INT_MAX" "INT_MIN \<le> j" "j \<le> INT_MAX" "INT_MIN \<le> k" "k \<le> INT_MAX"
    using h len by (auto simp: INT_MIN_def)
  let ?n = "int (length s)"
  have ij: "substring_idx s i j = Some ([], Some (take (nat (j - i)) (drop (nat i) s)))"
    using substring_idx_chars[OF nul, of i j] h by (simp add: min_def)
  have jk: "substring_idx s j k = Some (if k > ?n - 1
           then [Warn ''substring: end index out of range - using string endpoint''] else [],
           Some (take (nat (min k (?n - 1) - j)) (drop (nat j) s)))"
    using substring_idx_chars[OF nul, of j k] h by simp
  have ik: "substring_idx s i k = Some (if k > ?n - 1
           then [Warn ''substring: end index out of range - using string endpoint''] else [],
           Some (take (nat (min k (?n - 1) - i)) (drop (nat i) s)))"
    using substring_idx_chars[OF nul, of i k] h by simp
  have d: "drop (nat j) s = drop (nat (j - i)) (drop (nat i) s)"
  proof -
    have "nat (j - i) + nat i = nat j" using h by linarith
    then show ?thesis by simp
  qed
  have e: "nat (min k (?n - 1) - j) = nat (min k (?n - 1) - i) - nat (j - i)"
    using h by linarith
  have cat: "take (nat (j - i)) (drop (nat i) s) @ take (nat (min k (?n - 1) - j)) (drop (nat j) s)
        = take (nat (min k (?n - 1) - i)) (drop (nat i) s)"
    unfolding d e using h by (intro take_take_drop) (auto simp: min_def)
  show "\<exists>w2 w3 x y z.
             minc_substring [MString (Some s), MFloat (Finite (of_int i)), MFloat (Finite (of_int j))]
               = Some ([], Some x) \<and>
             minc_substring [MString (Some s), MFloat (Finite (of_int j)), MFloat (Finite (of_int k))]
               = Some (w2, Some y) \<and>
             minc_substring [MString (Some s), MFloat (Finite (of_int i)), MFloat (Finite (of_int k))]
               = Some (w3, Some z) \<and>
             x = take (nat (j - i)) (drop (nat i) s) \<and> x @ y = z"
    using cat by (simp add: minc_substring_idx rng ij jk ik)
next
  assume h: "INT_MIN \<le> a \<and> a \<le> INT_MAX \<and> INT_MIN \<le> b \<and> b \<le> INT_MAX \<and> (a < 0 \<or> b \<le> a)"
  then show "minc_substring [MString (Some s), MFloat (Finite (of_int a)), MFloat (Finite (of_int b))]
            = Some ([Warn ''substring: illegal indices''], None)"
    by (auto simp: minc_substring_idx substring_idx_def)
qed

text \<open>The string \<^verbatim>\<open>hello\<close> cut at 1, 3 and 5, and the empty range from 2 to 2.\<close>

theorem substring_concat_witness:
  "NUL \<notin> set ''hello'' \<and> int (length ''hello'') \<le> INT_MAX \<and>
   (\<exists>w2 w3 x y z.
      minc_substring [MString (Some ''hello''), MFloat (Finite 1), MFloat (Finite 3)]
        = Some ([], Some x) \<and>
      minc_substring [MString (Some ''hello''), MFloat (Finite 3), MFloat (Finite 5)]
        = Some (w2, Some y) \<and>
      minc_substring [MString (Some ''hello''), MFloat (Finite 1), MFloat (Finite 5)]
        = Some (w3, Some z) \<and>
      x = ''el'' \<and> x @ y = z) \<and>
   minc_substring [MString (Some ''hello''), MFloat (Finite 2), MFloat (Finite 2)]
     = Some ([Warn ''substring: illegal indices''], None)"
  using substring_concat[of "''hello''" 1 3 5 2 2]
  by (simp add: NUL_def INT_MAX_def INT_MIN_def)

text \<open>
  With the end index equal to the length, \<^verbatim>\<open>substring("hello", 0, 5)\<close> is \<^verbatim>\<open>hell\<close>, with the
  out-of-range warning, and not the characters between 0 and 5; and the empty range
  \<^verbatim>\<open>substring("hello", 2, 2)\<close>, which the claim's \<open>i \<le> j\<close> allows, is an error.
\<close>

theorem substring_counterexample:
  "minc_substring [MString (Some ''hello''), MFloat (Finite 0), MFloat (Finite 5)]
     = Some ([Warn ''substring: end index out of range - using string endpoint''], Some ''hell'') \<and>
   ''hell'' \<noteq> ''hello'' \<and>
   minc_substring [MString (Some ''hello''), MFloat (Finite 2), MFloat (Finite 2)]
     = Some ([Warn ''substring: illegal indices''], None)"
  by (simp add: minc_substring_def int_of_fp_def trunc_real_def INT_MIN_def INT_MAX_def
      substring_idx_def NUL_def)

section \<open>The numeric operators of Minc\<close>

subsection \<open>Floating-point arithmetic\<close>

fun fp_neg :: "ieee \<Rightarrow> ieee" where
  "fp_neg (Finite x) = Finite (- x)"
| "fp_neg PlusInf = MinusInf"
| "fp_neg MinusInf = PlusInf"
| "fp_neg NaN = NaN"

fun fp_add :: "ieee \<Rightarrow> ieee \<Rightarrow> ieee" where
  "fp_add NaN _ = NaN"
| "fp_add _ NaN = NaN"
| "fp_add (Finite x) (Finite y) = Finite (x + y)"
| "fp_add (Finite x) b = b"
| "fp_add a (Finite y) = a"
| "fp_add a b = (if a = b then a else NaN)"

definition fp_sub :: "ieee \<Rightarrow> ieee \<Rightarrow> ieee" where
  "fp_sub a b = fp_add a (fp_neg b)"

text \<open>The sign of a value that is not NaN: \<open>1\<close>, \<open>0\<close> or \<open>-1\<close>.\<close>

fun fp_sgn :: "ieee \<Rightarrow> real" where
  "fp_sgn (Finite x) = sgn x"
| "fp_sgn PlusInf = 1"
| "fp_sgn MinusInf = - 1"
| "fp_sgn NaN = 0"

definition inf_of_sign :: "real \<Rightarrow> ieee" where
  "inf_of_sign r = (if r < 0 then MinusInf else PlusInf)"

fun fp_mul :: "ieee \<Rightarrow> ieee \<Rightarrow> ieee" where
  "fp_mul NaN _ = NaN"
| "fp_mul _ NaN = NaN"
| "fp_mul (Finite x) (Finite y) = Finite (x * y)"
| "fp_mul a b = (if fp_sgn a = 0 \<or> fp_sgn b = 0 then NaN else inf_of_sign (fp_sgn a * fp_sgn b))"

text \<open>
  Division: a nonzero value over zero is an infinity, zero over zero and infinity over
  infinity are NaN. The zero divisor is taken as \<open>+0\<close>.
\<close>

fun fp_div :: "ieee \<Rightarrow> ieee \<Rightarrow> ieee" where
  "fp_div NaN _ = NaN"
| "fp_div _ NaN = NaN"
| "fp_div (Finite x) (Finite y) =
     (if y \<noteq> 0 then Finite (x / y) else if x = 0 then NaN else inf_of_sign x)"
| "fp_div (Finite x) b = Finite 0"
| "fp_div a (Finite y) = inf_of_sign (fp_sgn a * (if y < 0 then - 1 else 1))"
| "fp_div a b = NaN"

text \<open>
  \<^verbatim>\<open>pow\<close> of the C library, by the cases of C99 Annex F (zero is \<open>+0\<close>). \<open>odd_int y\<close>: the
  exponent is an odd integer.
\<close>

definition is_int :: "real \<Rightarrow> bool" where
  "is_int y = (of_int \<lfloor>y\<rfloor> = y)"

definition odd_int :: "real \<Rightarrow> bool" where
  "odd_int y = (is_int y \<and> odd \<lfloor>y\<rfloor>)"

fun pow_c :: "ieee \<Rightarrow> ieee \<Rightarrow> ieee" where
  "pow_c x (Finite y) =
     (if y = 0 then Finite 1
      else case x of
        NaN \<Rightarrow> NaN
      | PlusInf \<Rightarrow> if y < 0 then Finite 0 else PlusInf
      | MinusInf \<Rightarrow> if y < 0 then Finite 0 else if odd_int y then MinusInf else PlusInf
      | Finite b \<Rightarrow>
          if b = 0 then (if y < 0 then PlusInf else Finite 0)
          else if b > 0 then Finite (b powr y)
          else if is_int y then Finite ((if odd_int y then - 1 else 1) * (- b) powr y)
          else NaN)"
| "pow_c x NaN = (if x = Finite 1 then Finite 1 else NaN)"
| "pow_c x PlusInf =
     (case x of
        NaN \<Rightarrow> NaN
      | Finite b \<Rightarrow> if \<bar>b\<bar> = 1 then Finite 1 else if \<bar>b\<bar> < 1 then Finite 0 else PlusInf
      | _ \<Rightarrow> PlusInf)"
| "pow_c x MinusInf =
     (case x of
        NaN \<Rightarrow> NaN
      | Finite b \<Rightarrow> if \<bar>b\<bar> = 1 then Finite 1 else if \<bar>b\<bar> < 1 then PlusInf else Finite 0
      | _ \<Rightarrow> Finite 0)"

subsection \<open>do\_op\_num\<close>

datatype OpKind =
    OpZero | OpFree | OpPlus | OpMinus | OpMul | OpDiv | OpMod | OpPow | OpNeg
  | OpEqual | OpNotEqual | OpLess | OpGreater | OpLessEqual | OpGreaterEqual
  | OpPlusPlus | OpMinusMinus

text \<open>
  \<^verbatim>\<open>NodeOp::do_op_num(val1, val2, op)\<close>. \<^verbatim>\<open>minc_die\<close> is not defined in these sources, and
  whether it returns to its caller is the first argument. The result is what the call
  reports and the node's value \<^verbatim>\<open>this->v\<close> when \<^verbatim>\<open>do_op_num\<close> returns (\<open>v\<close> is the value before
  the call); the value is \<open>None\<close> when \<^verbatim>\<open>minc_die\<close> has not returned, so that the assignment
  \<^verbatim>\<open>this->v = 0.0\<close> after it is not reached. The outer \<open>None\<close> is undefined behaviour: an
  operand of \<^verbatim>\<open>%\<close> that does not fit a \<^verbatim>\<open>long\<close>, or \<^verbatim>\<open>LONG_MIN % -1\<close>. The C operator \<^verbatim>\<open>%\<close>
  truncates towards zero (\<open>smod\<close>).
\<close>

definition do_op_num ::
  "bool \<Rightarrow> ieee \<Rightarrow> ieee \<Rightarrow> OpKind \<Rightarrow> MincValue \<Rightarrow> (diag list \<times> MincValue option) option" where
  "do_op_num die_comes_back val1 val2 op v =
     (case op of
        OpPlus \<Rightarrow> Some ([], Some (MFloat (fp_add val1 val2)))
      | OpMinus \<Rightarrow> Some ([], Some (MFloat (fp_sub val1 val2)))
      | OpMul \<Rightarrow> Some ([], Some (MFloat (fp_mul val1 val2)))
      | OpDiv \<Rightarrow> Some ([], Some (MFloat (fp_div val1 val2)))
      | OpMod \<Rightarrow>
          if fp_lt val2 (Finite 1) \<and> fp_gt val2 (Finite (- 1)) then
            Some ([Die ''Illegal value for RHS of a modulo operation''],
                  if die_comes_back then Some (MFloat (Finite 0)) else None)
          else
            (case (long_of_fp val1, long_of_fp val2) of
               (Some a, Some b) \<Rightarrow>
                 if b = 0 \<or> (a = LONG_MIN \<and> b = - 1) then None
                 else Some ([], Some (MFloat (Finite (of_int (a smod b)))))
             | _ \<Rightarrow> None)
      | OpPow \<Rightarrow> Some ([], Some (MFloat (pow_c val1 val2)))
      | OpNeg \<Rightarrow> Some ([], Some (MFloat (fp_neg val1)))
      | _ \<Rightarrow> Some ([InternalError ''invalid numeric operator''], Some v))"

subsection \<open>Modulo and division\<close>

lemma fp_div_zero: "fp_div a (Finite 0) \<in> {PlusInf, MinusInf, NaN}"
  by (cases a) (auto simp: inf_of_sign_def)

lemma trunc_real_small: "- 1 < r \<Longrightarrow> r < 1 \<Longrightarrow> trunc_real r = 0"
  unfolding trunc_real_def by (auto simp: floor_eq_iff ceiling_eq_iff)

text \<open>
  Claim C3, as the code has it. For two Float operands, \<^verbatim>\<open>%\<close> with a right-hand side
  strictly between \<open>-1\<close> and \<open>1\<close> reports "Illegal value for RHS of a modulo operation"
  through \<^verbatim>\<open>minc_die\<close>, and yields \<open>0\<close> if \<^verbatim>\<open>minc_die\<close> returns (no value if it does not);
  otherwise it is the C remainder of the two operands truncated to \<^verbatim>\<open>long\<close>. The operator
  \<^verbatim>\<open>/\<close> is the plain floating-point quotient and reports nothing, whatever \<^verbatim>\<open>minc_die\<close>
  does: with a zero right-hand side it yields an infinity or NaN.
\<close>

theorem do_op_num_mod_div:
  "(fp_lt val2 (Finite 1) \<and> fp_gt val2 (Finite (- 1)) \<longrightarrow>
      do_op_num True val1 val2 OpMod v =
        Some ([Die ''Illegal value for RHS of a modulo operation''], Some (MFloat (Finite 0))) \<and>
      do_op_num False val1 val2 OpMod v =
        Some ([Die ''Illegal value for RHS of a modulo operation''], None)) \<and>
   (long_of_fp val1 = Some a \<and> long_of_fp val2 = Some b \<and> b \<noteq> 0 \<and> \<not> (a = LONG_MIN \<and> b = - 1) \<longrightarrow>
      do_op_num r val1 val2 OpMod v = Some ([], Some (MFloat (Finite (of_int (a smod b)))))) \<and>
   do_op_num r val1 val2 OpDiv v = Some ([], Some (MFloat (fp_div val1 val2))) \<and>
   (val2 = Finite 0 \<longrightarrow> fp_div val1 val2 \<in> {PlusInf, MinusInf, NaN})"
proof -
  have "\<not> (fp_lt val2 (Finite 1) \<and> fp_gt val2 (Finite (- 1)))"
    if "long_of_fp val2 = Some b" "b \<noteq> 0"
    using that
    by (cases val2) (auto simp: long_of_fp_def fp_gt_def trunc_real_small split: if_splits)
  then show ?thesis
    using fp_div_zero[of val1] by (auto simp: do_op_num_def)
qed

text \<open>\<^verbatim>\<open>7 % 0\<close>, \<^verbatim>\<open>-7.9 % 2\<close> and \<^verbatim>\<open>7 / 0\<close>.\<close>

theorem do_op_num_mod_div_witness:
  "do_op_num True (Finite 7) (Finite 0) OpMod MVoid =
     Some ([Die ''Illegal value for RHS of a modulo operation''], Some (MFloat (Finite 0))) \<and>
   do_op_num False (Finite 7) (Finite 0) OpMod MVoid =
     Some ([Die ''Illegal value for RHS of a modulo operation''], None) \<and>
   long_of_fp (Finite (- 7.9)) = Some (- 7) \<and> long_of_fp (Finite 2) = Some 2 \<and>
   do_op_num False (Finite (- 7.9)) (Finite 2) OpMod MVoid = Some ([], Some (MFloat (Finite (- 1)))) \<and>
   do_op_num False (Finite 7) (Finite 0) OpDiv MVoid =
     Some ([], Some (MFloat (fp_div (Finite 7) (Finite 0)))) \<and>
   fp_div (Finite 7) (Finite 0) \<in> {PlusInf, MinusInf, NaN}"
proof -
  have l: "long_of_fp (Finite (- 7.9)) = Some (- 7)" "long_of_fp (Finite 2) = Some 2"
    by (simp_all add: long_of_fp_def trunc_real_def LONG_MIN_def LONG_MAX_def)
  have m: "(- 7 :: int) smod 2 = - 1"
    by (simp add: signed_modulo_int_def)
  from do_op_num_mod_div[of "Finite 0" "Finite 7" MVoid 0 0 False]
    do_op_num_mod_div[of "Finite 2" "Finite (- 7.9)" MVoid "- 7" 2 False] l m
  show ?thesis by (simp add: fp_gt_def LONG_MIN_def)
qed

text \<open>
  \<^verbatim>\<open>1 / 0\<close> reports nothing and yields \<open>+\<infinity>\<close>, not zero, whether \<^verbatim>\<open>minc_die\<close> returns or not.
\<close>

theorem do_op_num_div_zero_counterexample:
  "do_op_num True (Finite 1) (Finite 0) OpDiv MVoid = Some ([], Some (MFloat PlusInf)) \<and>
   do_op_num False (Finite 1) (Finite 0) OpDiv MVoid = Some ([], Some (MFloat PlusInf)) \<and>
   PlusInf \<noteq> Finite 0"
  by (simp add: do_op_num_def inf_of_sign_def)

section \<open>The tempo map\<close>

subsection \<open>State\<close>

definition TLEN :: nat where "TLEN = 20"
definition TLENP :: nat where "TLENP = 21"

text \<open>
  The file's static variables. The four arrays have \<^verbatim>\<open>TLENP\<close> entries. Arguments arrive as
  the array \<^verbatim>\<open>p\<close> of doubles (a function from the index) and the count \<^verbatim>\<open>n_args\<close>; the
  conversions between \<^verbatim>\<open>double\<close> and \<^verbatim>\<open>float\<close> do not show in the model, which computes
  finite values exactly.
\<close>

record tempo_state =
  xtime :: "ieee list"
  temp :: "ieee list"
  rxtime :: "ieee list"
  accel :: "ieee list"
  BASIS :: ieee
  tset :: int
  npts :: int

definition tempo_init :: tempo_state where
  "tempo_init =
     \<lparr>xtime = replicate TLENP (Finite 0), temp = replicate TLENP (Finite 0),
      rxtime = replicate TLENP (Finite 0), accel = replicate TLENP (Finite 0),
      BASIS = Finite 60, tset = 0, npts = 0\<rparr>"

text \<open>The arrays have their declared size and \<^verbatim>\<open>npts\<close> indexes them.\<close>

definition tempo_wf :: "tempo_state \<Rightarrow> bool" where
  "tempo_wf s =
     (length (xtime s) = TLENP \<and> length (temp s) = TLENP \<and> length (rxtime s) = TLENP \<and>
      length (accel s) = TLENP \<and> 0 \<le> npts s \<and> npts s \<le> 11)"

fun fp_sqrt :: "ieee \<Rightarrow> ieee" where
  "fp_sqrt (Finite x) = (if x < 0 then NaN else Finite (sqrt x))"
| "fp_sqrt PlusInf = PlusInf"
| "fp_sqrt MinusInf = NaN"
| "fp_sqrt NaN = NaN"

definition TWO :: ieee where "TWO = Finite 2"

subsection \<open>tbase and tempo\<close>

definition tbase :: "(nat \<Rightarrow> ieee) \<Rightarrow> int \<Rightarrow> tempo_state \<Rightarrow> tempo_state" where
  "tbase p n_args s = s\<lparr>BASIS := p 0\<rparr>"

text \<open>How a call of \<^verbatim>\<open>tempo\<close> ends: \<^verbatim>\<open>return -1.0\<close>, \<^verbatim>\<open>return die(...)\<close> or \<^verbatim>\<open>return 0.0\<close>.\<close>

datatype tempo_outcome = TempoCleared | TempoDied | TempoSet

text \<open>The first loop: \<^verbatim>\<open>for(m=0;m<TLEN;m++) xtime[m]=temp[m]=rxtime[m]=accel[m]=0\<close>.\<close>

definition zero_upto :: "nat \<Rightarrow> ieee list \<Rightarrow> ieee list" where
  "zero_upto n xs = replicate (min n (length xs)) (Finite 0) @ drop n xs"

definition tempo_clear :: "tempo_state \<Rightarrow> tempo_state" where
  "tempo_clear s =
     s\<lparr>xtime := zero_upto TLEN (xtime s), temp := zero_upto TLEN (temp s),
       rxtime := zero_upto TLEN (rxtime s), accel := zero_upto TLEN (accel s)\<rparr>"

text \<open>
  The second loop, from \<open>m\<close> on, reading the pairs; \<^verbatim>\<open>npts\<close> is the state's. It returns
  \<open>False\<close> when it left through \<^verbatim>\<open>return die(...)\<close>.
\<close>

function tempo_read :: "(nat \<Rightarrow> ieee) \<Rightarrow> int \<Rightarrow> nat \<Rightarrow> tempo_state \<Rightarrow> bool \<times> tempo_state" where
  "tempo_read p n_args m s =
     (if m < TLEN then
        if m \<noteq> 0 \<and> int m \<ge> n_args then (True, s)
        else
          let k = nat (npts s);
              s1 = s\<lparr>xtime := (xtime s)[k := p m],
                     temp := (temp s)[k := fp_div (p (m + 1)) (BASIS s)]\<rparr>
          in if fp_eq (temp s1 ! k) (Finite 0) then (False, s1)
             else tempo_read p n_args (m + 2) (s1\<lparr>npts := npts s1 + 1\<rparr>)
      else (True, s))"
  by pat_completeness auto
termination
  by (relation "measure (\<lambda>(p, n_args, m, s). TLEN - m)") auto

text \<open>The third loop, from \<open>m\<close> on, with \<^verbatim>\<open>prvbt\<close>.\<close>

function tempo_fill :: "nat \<Rightarrow> ieee \<Rightarrow> tempo_state \<Rightarrow> tempo_state" where
  "tempo_fill m prvbt s =
     (if int m < npts s then
        let dur = fp_sub (xtime s ! (m + 1)) (xtime s ! m) in
        if fp_eq dur (Finite 0) then
          let s1 = s\<lparr>accel := (accel s)[m := Finite 0]\<rparr>;
              s2 = s1\<lparr>rxtime := (rxtime s1)[m + 1 := rxtime s1 ! m]\<rparr>
          in tempo_fill (m + 1) (rxtime s2 ! (m + 1)) s2
        else
          let s1 = s\<lparr>accel := (accel s)[m :=
                      fp_div (fp_sub (pow_c (temp s ! (m + 1)) TWO) (pow_c (temp s ! m) TWO))
                             (fp_mul (Finite 2) dur)]\<rparr>;
              s2 = (if fp_eq (accel s1 ! m) (Finite 0) then
                      s1\<lparr>rxtime := (rxtime s1)[m + 1 := fp_add (fp_div dur (temp s1 ! m)) prvbt]\<rparr>
                    else
                      s1\<lparr>rxtime := (rxtime s1)[m + 1 :=
                            fp_add
                              (fp_div
                                 (fp_sub
                                    (fp_sqrt (fp_add (pow_c (temp s1 ! m) TWO)
                                                     (fp_mul (fp_mul TWO (accel s1 ! m)) dur)))
                                    (temp s1 ! m))
                                 (accel s1 ! m))
                              prvbt]\<rparr>)
          in tempo_fill (m + 1) (rxtime s2 ! (m + 1)) s2
      else s)"
  by pat_completeness auto
termination
proof (relation "measure (\<lambda>(m, prvbt, s). nat (npts s) - m)")
  show "wf (measure (\<lambda>(m, prvbt, s). nat (npts s) - m))" by simp
qed (auto simp: Let_def)

definition tempo :: "(nat \<Rightarrow> ieee) \<Rightarrow> int \<Rightarrow> tempo_state \<Rightarrow> tempo_outcome \<times> tempo_state" where
  "tempo p n_args s =
     (if n_args = 0 then (TempoCleared, s\<lparr>tset := 0\<rparr>)
      else
        case tempo_read p n_args 0 ((tempo_clear s)\<lparr>npts := 1\<rparr>) of
          (False, s1) \<Rightarrow> (TempoDied, s1)
        | (True, s1) \<Rightarrow>
            let n = nat (npts s1);
                s2 = s1\<lparr>tset := 1\<rparr>;
                s3 = s2\<lparr>xtime := (xtime s2)[n := Finite 9999990000]\<rparr>;
                s4 = s3\<lparr>rxtime := (rxtime s3)[n := xtime s3 ! n]\<rparr>;
                s5 = s4\<lparr>temp := (temp s4)[n := temp s4 ! (n - 1)]\<rparr>;
                s6 = s5\<lparr>temp := (temp s5)[0 := temp s5 ! 1]\<rparr>;
                s7 = s6\<lparr>accel := (accel s6)[0 := Finite 0]\<rparr>;
                s8 = s7\<lparr>rxtime := (rxtime s7)[0 := Finite 0]\<rparr>;
                s9 = s8\<lparr>xtime := (xtime s8)[0 := Finite 0]\<rparr>
            in (TempoSet, tempo_fill 0 (Finite 0) s9))"

subsection \<open>time\_beat and beat\_time\<close>

text \<open>
  The search loops: the first \<open>m\<close> in \<open>0..npts\<close> at which the test holds, or \<open>npts + 1\<close>
  when the loop runs out.
\<close>

function seg_search :: "(nat \<Rightarrow> bool) \<Rightarrow> int \<Rightarrow> nat \<Rightarrow> nat" where
  "seg_search test n m = (if int m \<le> n then (if test m then m else seg_search test n (m + 1)) else m)"
  by pat_completeness auto
termination
  by (relation "measure (\<lambda>(test, n, m). nat (n + 1) - m)") auto

text \<open>The part of \<^verbatim>\<open>time_beat\<close> after \<^verbatim>\<open>if(!tset) return(timein)\<close>.\<close>

definition time_beat_mapped :: "ieee \<Rightarrow> tempo_state \<Rightarrow> ieee" where
  "time_beat_mapped timein s =
     (let hit = (\<lambda>m. fp_gt timein (xtime s ! m) \<and> fp_le timein (xtime s ! (m + 1)));
          m = (if fp_gt timein (Finite 0) then seg_search hit (npts s) 0 else 0);
          durp = (if fp_gt timein (Finite 0) \<and> int m \<le> npts s
                  then fp_sub timein (xtime s ! m) else Finite 0)
      in if fp_eq (accel s ! m) (Finite 0) then
           fp_add (fp_div durp (temp s ! m)) (rxtime s ! m)
         else
           fp_add
             (fp_div
                (fp_sub
                   (fp_sqrt (fp_add (pow_c (temp s ! m) TWO) (fp_mul (fp_mul TWO (accel s ! m)) durp)))
                   (temp s ! m))
                (accel s ! m))
             (rxtime s ! m))"

definition time_beat :: "ieee \<Rightarrow> tempo_state \<Rightarrow> ieee" where
  "time_beat timein0 s =
     (let timein = (if fp_lt timein0 (Finite 0) then Finite 0 else timein0)
      in if tset s = 0 then timein else time_beat_mapped timein s)"

text \<open>The part of \<^verbatim>\<open>beat_time\<close> after \<^verbatim>\<open>if(!tset) return(beatin)\<close>.\<close>

definition beat_time_mapped :: "ieee \<Rightarrow> tempo_state \<Rightarrow> ieee" where
  "beat_time_mapped beatin s =
     (let hit = (\<lambda>m. fp_gt beatin (rxtime s ! m) \<and> fp_le beatin (rxtime s ! (m + 1)));
          m = (if \<not> fp_eq beatin (Finite 0) then seg_search hit (npts s) 0 else 0)
      in if fp_eq (accel s ! m) (Finite 0) then
           fp_add (fp_mul (fp_sub beatin (rxtime s ! m)) (temp s ! m)) (xtime s ! m)
         else
           fp_add
             (fp_div
                (fp_sub
                   (pow_c (fp_add (fp_mul (fp_sub beatin (rxtime s ! m)) (accel s ! m)) (temp s ! m)) TWO)
                   (pow_c (temp s ! m) TWO))
                (fp_mul TWO (accel s ! m)))
             (xtime s ! m))"

definition beat_time :: "ieee \<Rightarrow> tempo_state \<Rightarrow> ieee" where
  "beat_time beatin s = (if tset s = 0 then beatin else beat_time_mapped beatin s)"

subsection \<open>Predicates and example inputs\<close>

text \<open>
  The breakpoints a call of \<^verbatim>\<open>tempo\<close> has stored after reading \<open>n\<close> pairs with basis \<open>b\<close>:
  entries \<open>1..n\<close> of \<^verbatim>\<open>xtime\<close> and \<^verbatim>\<open>temp\<close> hold the pairs, the other entries below
  \<^verbatim>\<open>TLEN\<close> are zero.
\<close>

definition written_upto :: "(nat \<Rightarrow> ieee) \<Rightarrow> ieee \<Rightarrow> nat \<Rightarrow> ieee list \<Rightarrow> ieee list \<Rightarrow> bool" where
  "written_upto p b n xs ts =
     (\<forall>i<TLEN. if 1 \<le> i \<and> i \<le> n
               then xs ! i = p (2 * (i - 1)) \<and> ts ! i = fp_div (p (2 * i - 1)) b
               else xs ! i = Finite 0 \<and> ts ! i = Finite 0)"

text \<open>Two states that differ in the contents of the arrays only.\<close>

definition same_frame :: "tempo_state \<Rightarrow> tempo_state \<Rightarrow> bool" where
  "same_frame s' s =
     (tset s' = tset s \<and> npts s' = npts s \<and> BASIS s' = BASIS s \<and>
      length (xtime s') = length (xtime s) \<and> length (temp s') = length (temp s) \<and>
      length (rxtime s') = length (rxtime s) \<and> length (accel s') = length (accel s))"

text \<open>An argument array holding the given values, and zero after them.\<close>

definition args_of :: "ieee list \<Rightarrow> nat \<Rightarrow> ieee" where
  "args_of xs i = (if i < length xs then xs ! i else Finite 0)"

text \<open>Eleven pairs \<open>(60, 60)\<close>, except that the eleventh tempo is zero.\<close>

definition eleven_pairs :: "nat \<Rightarrow> ieee" where
  "eleven_pairs i = (if i = 21 then Finite 0 else Finite 60)"

text \<open>The state after \<^verbatim>\<open>tempo(0, 60)\<close> on the initial state.\<close>

definition map_60 :: tempo_state where
  "map_60 = snd (tempo (args_of [Finite 0, Finite 60]) 2 tempo_init)"

subsection \<open>The loops of tempo\<close>

declare tempo_read.simps [simp del]
declare tempo_fill.simps [simp del]

lemma tempo_read_frame:
  "tempo_read p n m s = (ok, s') \<Longrightarrow>
     tset s' = tset s \<and> BASIS s' = BASIS s \<and> rxtime s' = rxtime s \<and> accel s' = accel s \<and>
     length (xtime s') = length (xtime s) \<and> length (temp s') = length (temp s)"
proof (induction p n m s arbitrary: ok s' rule: tempo_read.induct)
  case (1 p n_args m s)
  show ?case
  proof (cases "m < TLEN \<and> \<not> (m \<noteq> 0 \<and> int m \<ge> n_args)")
    case False
    with "1.prems" show ?thesis by (subst (asm) tempo_read.simps) (auto split: if_splits)
  next
    case True
    define k where "k = nat (npts s)"
    define s1 where "s1 = s\<lparr>xtime := (xtime s)[k := p m],
                     temp := (temp s)[k := fp_div (p (m + 1)) (BASIS s)]\<rparr>"
    show ?thesis
    proof (cases "fp_eq (temp s1 ! k) (Finite 0)")
      case z: True
      with True "1.prems" have "s' = s1"
        by (subst (asm) tempo_read.simps) (auto simp: Let_def s1_def k_def)
      then show ?thesis by (simp add: s1_def)
    next
      case nz: False
      with True "1.prems" have r: "tempo_read p n_args (m + 2) (s1\<lparr>npts := npts s1 + 1\<rparr>) = (ok, s')"
        by (subst (asm) tempo_read.simps) (auto simp: Let_def s1_def k_def)
      from "1.IH"[OF _ _ k_def s1_def nz r] True
      show ?thesis by (auto simp: s1_def)
    qed
  qed
qed


lemma fp_div_zero_num: "b \<noteq> NaN \<Longrightarrow> b \<noteq> Finite 0 \<Longrightarrow> fp_div (Finite 0) b = Finite 0"
  by (cases b) auto

lemma tempo_read_dies:
  assumes "j = m + 2 * d" "j < TLEN" "j = 0 \<or> int j < n_args" "p (j + 1) = Finite 0"
    "BASIS s \<noteq> NaN" "BASIS s \<noteq> Finite 0"
    "even m" "npts s = int (m div 2) + 1" "length (temp s) = TLENP"
  shows "fst (tempo_read p n_args m s) = False"
  using assms
proof (induction d arbitrary: m s)
  case 0
  then have "nat (npts s) < length (temp s)" by (auto simp: TLEN_def TLENP_def)
  with 0 show ?case
    by (subst tempo_read.simps) (auto simp: Let_def fp_div_zero_num)
next
  case (Suc d)
  have nb: "m < TLEN" "\<not> (m \<noteq> 0 \<and> int m \<ge> n_args)" using Suc.prems by auto
  define k where "k = nat (npts s)"
  define s1 where "s1 = s\<lparr>xtime := (xtime s)[k := p m],
                     temp := (temp s)[k := fp_div (p (m + 1)) (BASIS s)]\<rparr>"
  show ?case
  proof (cases "fp_eq (temp s1 ! k) (Finite 0)")
    case True
    with nb show ?thesis
      by (subst tempo_read.simps) (auto simp: Let_def s1_def k_def)
  next
    case False
    have "fst (tempo_read p n_args (m + 2) (s1\<lparr>npts := npts s1 + 1\<rparr>)) = False"
      by (rule Suc.IH) (use Suc.prems in \<open>auto simp: s1_def\<close>)
    with False nb show ?thesis
      by (subst tempo_read.simps) (auto simp: Let_def s1_def k_def)
  qed
qed

lemma tempo_read_contents:
  assumes "tempo_read p n m s = (ok, s')" "even m" "npts s = int (m div 2) + 1"
    "length (xtime s) = TLENP" "length (temp s) = TLENP"
    "written_upto p (BASIS s) (m div 2) (xtime s) (temp s)" "m \<le> TLEN"
  shows "written_upto p (BASIS s) (if ok then nat (npts s') - 1 else nat (npts s')) (xtime s') (temp s')
         \<and> 1 \<le> npts s' \<and> npts s' \<le> 11"
  using assms
proof (induction p n m s arbitrary: ok s' rule: tempo_read.induct)
  case (1 p n_args m s)
  show ?case
  proof (cases "m < TLEN \<and> \<not> (m \<noteq> 0 \<and> int m \<ge> n_args)")
    case False
    with "1.prems"(1) have e: "s' = s" "ok"
      by (subst (asm) tempo_read.simps; auto split: if_splits)+
    have "npts s \<le> 11"
      using "1.prems"(3,7) by (simp add: TLEN_def)
    moreover have "nat (int (m div 2) + 1) - 1 = m div 2" by simp
    ultimately show ?thesis using "1.prems" e by (simp del: One_nat_def)
  next
    case True
    define k where "k = nat (npts s)"
    define s1 where "s1 = s\<lparr>xtime := (xtime s)[k := p m],
                     temp := (temp s)[k := fp_div (p (m + 1)) (BASIS s)]\<rparr>"
    have k: "k = m div 2 + 1" using "1.prems"(3) by (simp add: k_def)
    have kl: "k < TLEN" using True "1.prems"(2) by (auto simp: k TLEN_def elim!: evenE)
    have m2: "2 * (k - 1) = m" "2 * k - 1 = m + 1" using "1.prems"(2) by (auto simp: k elim!: evenE)
    have w1: "written_upto p (BASIS s) k (xtime s1) (temp s1)"
      unfolding written_upto_def
    proof (intro allI impI)
      fix i assume i: "i < TLEN"
      from "1.prems"(6) i have old: "if 1 \<le> i \<and> i \<le> m div 2
               then xtime s ! i = p (2 * (i - 1)) \<and> temp s ! i = fp_div (p (2 * i - 1)) (BASIS s)
               else xtime s ! i = Finite 0 \<and> temp s ! i = Finite 0"
        by (auto simp: written_upto_def)
      show "if 1 \<le> i \<and> i \<le> k
         then xtime s1 ! i = p (2 * (i - 1)) \<and> temp s1 ! i = fp_div (p (2 * i - 1)) (BASIS s)
         else xtime s1 ! i = Finite 0 \<and> temp s1 ! i = Finite 0"
      proof (cases "i = k")
        case True
        then show ?thesis using kl "1.prems"(4,5) m2 by (simp add: s1_def TLEN_def TLENP_def k)
      next
        case False
        then show ?thesis using old by (auto simp: s1_def k split: if_splits)
      qed
    qed
    show ?thesis
    proof (cases "fp_eq (temp s1 ! k) (Finite 0)")
      case z: True
      with True "1.prems"(1) have "s' = s1" "\<not> ok"
        by (subst (asm) tempo_read.simps; auto simp: Let_def s1_def k_def)+
      moreover have "1 \<le> npts s" "npts s \<le> 11" "nat (npts s) = k"
        using True "1.prems"(3) by (auto simp: k TLEN_def)
      ultimately show ?thesis using w1 by (simp add: s1_def)
    next
      case nz: False
      with True "1.prems"(1) have r: "tempo_read p n_args (m + 2) (s1\<lparr>npts := npts s1 + 1\<rparr>) = (ok, s')"
        by (subst (asm) tempo_read.simps) (auto simp: Let_def s1_def k_def)
      have "written_upto p (BASIS (s1\<lparr>npts := npts s1 + 1\<rparr>))
              (if ok then nat (npts s') - 1 else nat (npts s')) (xtime s') (temp s')
            \<and> 1 \<le> npts s' \<and> npts s' \<le> 11"
      proof (rule "1.IH"[OF _ _ k_def s1_def nz r])
        show "m < TLEN" "\<not> (m \<noteq> 0 \<and> n_args \<le> int m)" using True by auto
        show "even (m + 2)" using "1.prems"(2) by simp
        show "npts (s1\<lparr>npts := npts s1 + 1\<rparr>) = int ((m + 2) div 2) + 1"
          using "1.prems"(3) by (simp add: s1_def)
        show "length (xtime (s1\<lparr>npts := npts s1 + 1\<rparr>)) = TLENP"
          "length (temp (s1\<lparr>npts := npts s1 + 1\<rparr>)) = TLENP"
          using "1.prems"(4,5) by (simp_all add: s1_def)
        show "written_upto p (BASIS (s1\<lparr>npts := npts s1 + 1\<rparr>)) ((m + 2) div 2)
           (xtime (s1\<lparr>npts := npts s1 + 1\<rparr>)) (temp (s1\<lparr>npts := npts s1 + 1\<rparr>))"
          using w1 by (simp add: k s1_def)
        show "m + 2 \<le> TLEN" using True "1.prems"(2) by (auto simp: TLEN_def elim!: evenE)
      qed
      then show ?thesis by (simp add: s1_def)
    qed
  qed
qed



lemma length_zero_upto [simp]: "length (zero_upto n xs) = length xs"
  by (simp add: zero_upto_def)

lemma nth_zero_upto: "i < n \<Longrightarrow> i < length xs \<Longrightarrow> zero_upto n xs ! i = Finite 0"
  by (simp add: zero_upto_def nth_append)

lemma same_frame_trans: "same_frame a b \<Longrightarrow> same_frame b c \<Longrightarrow> same_frame a c"
  by (simp add: same_frame_def)

lemma tempo_fill_frame: "same_frame (tempo_fill m pr s) s"
proof (induction m pr s rule: tempo_fill.induct)
  case (1 m prvbt s)
  show ?case
  proof (cases "int m < npts s")
    case False
    then show ?thesis by (subst tempo_fill.simps) (simp add: same_frame_def)
  next
    case True
    define dur where "dur = fp_sub (xtime s ! (m + 1)) (xtime s ! m)"
    show ?thesis
    proof (cases "fp_eq dur (Finite 0)")
      case z: True
      define s1 where "s1 = s\<lparr>accel := (accel s)[m := Finite 0]\<rparr>"
      define s2 where "s2 = s1\<lparr>rxtime := (rxtime s1)[m + 1 := rxtime s1 ! m]\<rparr>"
      have e: "tempo_fill m prvbt s = tempo_fill (m + 1) (rxtime s2 ! (m + 1)) s2"
        unfolding s2_def s1_def using True z[unfolded dur_def]
        by (subst tempo_fill.simps) (simp add: Let_def)
      have "same_frame s2 s" by (simp add: s2_def s1_def same_frame_def)
      with "1.IH"(1)[OF True dur_def z s1_def s2_def] show ?thesis
        unfolding e by (rule same_frame_trans)
    next
      case nz: False
      define s1 where "s1 = s\<lparr>accel := (accel s)[m :=
                      fp_div (fp_sub (pow_c (temp s ! (m + 1)) TWO) (pow_c (temp s ! m) TWO))
                             (fp_mul (Finite 2) dur)]\<rparr>"
      define s2 where "s2 = (if fp_eq (accel s1 ! m) (Finite 0) then
                      s1\<lparr>rxtime := (rxtime s1)[m + 1 := fp_add (fp_div dur (temp s1 ! m)) prvbt]\<rparr>
                    else
                      s1\<lparr>rxtime := (rxtime s1)[m + 1 :=
                            fp_add
                              (fp_div
                                 (fp_sub
                                    (fp_sqrt (fp_add (pow_c (temp s1 ! m) TWO)
                                                     (fp_mul (fp_mul TWO (accel s1 ! m)) dur)))
                                    (temp s1 ! m))
                                 (accel s1 ! m))
                              prvbt]\<rparr>)"
      have e: "tempo_fill m prvbt s = tempo_fill (m + 1) (rxtime s2 ! (m + 1)) s2"
        unfolding s2_def s1_def dur_def using True nz[unfolded dur_def]
        by (subst tempo_fill.simps) (simp only: Let_def if_True if_False)
      have "same_frame s2 s" by (simp add: s2_def s1_def same_frame_def)
      with "1.IH"(2)[OF True dur_def nz s1_def s2_def] show ?thesis
        unfolding e by (rule same_frame_trans)
    qed
  qed
qed

lemma tempo_clear_wf:
  "tempo_wf s \<Longrightarrow>
     length (xtime (tempo_clear s)) = TLENP \<and> length (temp (tempo_clear s)) = TLENP \<and>
     length (rxtime (tempo_clear s)) = TLENP \<and> length (accel (tempo_clear s)) = TLENP \<and>
     tset (tempo_clear s) = tset s \<and> BASIS (tempo_clear s) = BASIS s \<and>
     (\<forall>i<TLEN. xtime (tempo_clear s) ! i = Finite 0 \<and> temp (tempo_clear s) ! i = Finite 0 \<and>
               rxtime (tempo_clear s) ! i = Finite 0 \<and> accel (tempo_clear s) ! i = Finite 0)"
  by (simp add: tempo_wf_def tempo_clear_def nth_zero_upto TLEN_def TLENP_def)

lemma tempo_died_state:
  assumes wf: "tempo_wf s" and d: "tempo p n_args s = (TempoDied, s')"
  shows "tset s' = tset s \<and> BASIS s' = BASIS s \<and> 1 \<le> npts s' \<and> npts s' \<le> 11 \<and> tempo_wf s' \<and>
         written_upto p (BASIS s) (nat (npts s')) (xtime s') (temp s') \<and>
         (\<forall>i<TLEN. rxtime s' ! i = Finite 0 \<and> accel s' ! i = Finite 0)"
proof -
  let ?c = "(tempo_clear s)\<lparr>npts := 1\<rparr>"
  from d have n0: "n_args \<noteq> 0" by (auto simp: tempo_def)
  from d n0 have r: "tempo_read p n_args 0 ?c = (False, s')"
    by (auto simp: tempo_def Let_def split: prod.splits bool.splits)
  note c = tempo_clear_wf[OF wf]
  have w0: "written_upto p (BASIS ?c) (0 div 2) (xtime ?c) (temp ?c)"
    using c by (simp add: written_upto_def)
  from tempo_read_contents[OF r _ _ _ _ w0] c
  have A: "written_upto p (BASIS s) (nat (npts s')) (xtime s') (temp s')" "1 \<le> npts s'" "npts s' \<le> 11"
    by simp_all
  from tempo_read_frame[OF r] c
  have B: "tset s' = tset s" "BASIS s' = BASIS s" "rxtime s' = rxtime (tempo_clear s)"
    "accel s' = accel (tempo_clear s)" "length (xtime s') = TLENP" "length (temp s') = TLENP"
    by simp_all
  show ?thesis using A B c by (simp add: tempo_wf_def)
qed

lemma tempo_set_state:
  assumes wf: "tempo_wf s" and d: "fst (tempo p n_args s) = TempoSet"
  shows "tset (snd (tempo p n_args s)) = 1 \<and> tempo_wf (snd (tempo p n_args s)) \<and>
         BASIS (snd (tempo p n_args s)) = BASIS s"
proof -
  let ?c = "(tempo_clear s)\<lparr>npts := 1\<rparr>"
  from d have n0: "n_args \<noteq> 0" by (auto simp: tempo_def)
  obtain ok s1 where r: "tempo_read p n_args 0 ?c = (ok, s1)" by (cases "tempo_read p n_args 0 ?c")
  with d n0 have ok: "ok" by (auto simp: tempo_def Let_def split: bool.splits)
  note c = tempo_clear_wf[OF wf]
  have w0: "written_upto p (BASIS ?c) (0 div 2) (xtime ?c) (temp ?c)"
    using c by (simp add: written_upto_def)
  from tempo_read_contents[OF r _ _ _ _ w0] c
  have A: "1 \<le> npts s1" "npts s1 \<le> 11" by simp_all
  from tempo_read_frame[OF r] c
  have B: "tset s1 = tset s" "BASIS s1 = BASIS s" "length (rxtime s1) = TLENP"
    "length (accel s1) = TLENP" "length (xtime s1) = TLENP" "length (temp s1) = TLENP"
    by simp_all
  show ?thesis using A B n0 r ok
    using tempo_fill_frame[of 0 "Finite 0"]
    by (simp add: tempo_def Let_def same_frame_def tempo_wf_def)
qed

lemma tempo_zero_dies:
  assumes wf: "tempo_wf s" and "n_args \<noteq> 0" "i < 10" "int (2 * i + 1) < n_args"
    "p (2 * i + 1) = Finite 0" "BASIS s \<noteq> NaN" "BASIS s \<noteq> Finite 0"
  shows "fst (tempo p n_args s) = TempoDied \<and> tset (snd (tempo p n_args s)) = tset s"
proof -
  let ?c = "(tempo_clear s)\<lparr>npts := 1\<rparr>"
  note c = tempo_clear_wf[OF wf]
  have "fst (tempo_read p n_args 0 ?c) = False"
    by (rule tempo_read_dies[where j = "2 * i" and d = i]) (use assms c in \<open>auto simp: TLEN_def\<close>)
  then obtain s' where r: "tempo_read p n_args 0 ?c = (False, s')"
    by (cases "tempo_read p n_args 0 ?c") auto
  from tempo_read_frame[OF r] c r assms(2) show ?thesis
    by (simp add: tempo_def)
qed

lemma tempo_init_wf: "tempo_wf tempo_init"
  by (simp add: tempo_wf_def tempo_init_def)

lemma tempo_read_true_set:
  "fst (tempo_read p n 0 ((tempo_clear s)\<lparr>npts := 1\<rparr>)) = True \<Longrightarrow> n \<noteq> 0 \<Longrightarrow>
   fst (tempo p n s) = TempoSet"
  by (cases "tempo_read p n 0 ((tempo_clear s)\<lparr>npts := 1\<rparr>)") (simp add: tempo_def Let_def)

lemma map_60_set:
  "fst (tempo (args_of [Finite 0, Finite 60]) 2 tempo_init) = TempoSet \<and>
   tset map_60 = 1 \<and> tempo_wf map_60 \<and> BASIS map_60 = Finite 60"
proof -
  have "fst (tempo_read (args_of [Finite 0, Finite 60]) 2 0 ((tempo_clear tempo_init)\<lparr>npts := 1\<rparr>))
      = True"
    by (simp add: tempo_read.simps Let_def tempo_clear_def tempo_init_def zero_upto_def
        TLEN_def TLENP_def args_of_def)
  then have s: "fst (tempo (args_of [Finite 0, Finite 60]) 2 tempo_init) = TempoSet"
    by (rule tempo_read_true_set) simp
  from tempo_set_state[OF tempo_init_wf s] s show ?thesis
    by (simp add: map_60_def) (simp add: tempo_init_def)
qed

subsection \<open>No map, and a zero tempo\<close>

text \<open>
  Claim C4, as the code has it. With no tempo map set, \<^verbatim>\<open>time_beat(s)\<close> returns \<open>s\<close> when
  \<open>s\<close> is not negative and \<open>0\<close> when it is, and \<^verbatim>\<open>beat_time(b)\<close> returns \<open>b\<close> for every \<open>b\<close>.
  A call of \<^verbatim>\<open>tempo\<close> in which the tempo of one of the first ten pairs is supplied and is
  zero, while the basis is neither zero nor NaN, ends in \<^verbatim>\<open>die\<close> and leaves the flag \<^verbatim>\<open>tset\<close>
  as it was.
\<close>

theorem tempo_identity_and_zero_tempo:
  "(tset s = 0 \<longrightarrow>
      time_beat t s = (if fp_lt t (Finite 0) then Finite 0 else t) \<and> beat_time b s = b) \<and>
   (tempo_wf s \<and> i < 10 \<and> int (2 * i + 1) < n_args \<and> p (2 * i + 1) = Finite 0 \<and>
    BASIS s \<noteq> NaN \<and> BASIS s \<noteq> Finite 0 \<longrightarrow>
      fst (tempo p n_args s) = TempoDied \<and> tset (snd (tempo p n_args s)) = tset s)"
proof -
  have "time_beat t s = (if fp_lt t (Finite 0) then Finite 0 else t) \<and> beat_time b s = b"
    if "tset s = 0"
    using that by (simp add: time_beat_def beat_time_def)
  moreover have "fst (tempo p n_args s) = TempoDied \<and> tset (snd (tempo p n_args s)) = tset s"
    if h: "tempo_wf s \<and> i < 10 \<and> int (2 * i + 1) < n_args \<and> p (2 * i + 1) = Finite 0 \<and>
      BASIS s \<noteq> NaN \<and> BASIS s \<noteq> Finite 0"
  proof -
    from h have "n_args \<noteq> 0" by auto
    with h tempo_zero_dies[of s n_args i p] show ?thesis by blast
  qed
  ultimately show ?thesis by blast
qed

text \<open>
  The initial state: \<^verbatim>\<open>time_beat(3.14)\<close>, \<^verbatim>\<open>beat_time(-2)\<close>, and the call
  \<^verbatim>\<open>tempo(0, 60, 4, 0)\<close>.
\<close>

theorem tempo_identity_and_zero_tempo_witness:
  "tset tempo_init = 0 \<and>
   time_beat (Finite 3.14) tempo_init = Finite 3.14 \<and>
   beat_time (Finite (- 2)) tempo_init = Finite (- 2) \<and>
   tempo_wf tempo_init \<and> args_of [Finite 0, Finite 60, Finite 4, Finite 0] 3 = Finite 0 \<and>
   fst (tempo (args_of [Finite 0, Finite 60, Finite 4, Finite 0]) 4 tempo_init) = TempoDied \<and>
   tset (snd (tempo (args_of [Finite 0, Finite 60, Finite 4, Finite 0]) 4 tempo_init)) = 0"
  using tempo_identity_and_zero_tempo[of tempo_init "Finite 3.14" "Finite (- 2)" 1 4
      "args_of [Finite 0, Finite 60, Finite 4, Finite 0]"] tempo_init_wf
  by (simp add: args_of_def) (simp add: tempo_init_def)

text \<open>
  With no map \<^verbatim>\<open>time_beat(-2)\<close> is \<open>0\<close>, not \<open>-2\<close>. A zero tempo in an eleventh pair is never
  read, and after \<^verbatim>\<open>tbase(0)\<close> the call \<^verbatim>\<open>tempo(0, 0)\<close> computes \<open>0/0\<close>, which is not equal
  to zero: both calls set the map.
\<close>

theorem tempo_identity_counterexample:
  "time_beat (Finite (- 2)) tempo_init = Finite 0 \<and> Finite 0 \<noteq> Finite (- 2) \<and>
   eleven_pairs 21 = Finite 0 \<and>
   fst (tempo eleven_pairs 22 tempo_init) = TempoSet \<and>
   fst (tempo (args_of [Finite 0, Finite 0]) 2 (tbase (args_of [Finite 0]) 1 tempo_init)) = TempoSet"
proof -
  have a: "time_beat (Finite (- 2)) tempo_init = Finite 0"
    by (simp add: time_beat_def tempo_init_def)
  have "fst (tempo_read eleven_pairs 22 0 ((tempo_clear tempo_init)\<lparr>npts := 1\<rparr>)) = True"
    by (simp add: tempo_read.simps Let_def tempo_clear_def tempo_init_def zero_upto_def
        TLEN_def TLENP_def eleven_pairs_def)
  then have b: "fst (tempo eleven_pairs 22 tempo_init) = TempoSet"
    by (rule tempo_read_true_set) simp
  have "fst (tempo_read (args_of [Finite 0, Finite 0]) 2 0
          ((tempo_clear (tbase (args_of [Finite 0]) 1 tempo_init))\<lparr>npts := 1\<rparr>)) = True"
    by (simp add: tempo_read.simps Let_def tempo_clear_def tempo_init_def zero_upto_def
        TLEN_def TLENP_def args_of_def tbase_def)
  then have c: "fst (tempo (args_of [Finite 0, Finite 0]) 2 (tbase (args_of [Finite 0]) 1 tempo_init))
      = TempoSet"
    by (rule tempo_read_true_set) simp
  from a b c show ?thesis by (simp add: eleven_pairs_def)
qed

subsection \<open>A failed call after a successful one\<close>

text \<open>
  Claim C10, as the code has it. When a call of \<^verbatim>\<open>tempo\<close> ends in \<^verbatim>\<open>die\<close> in a state whose
  flag \<^verbatim>\<open>tset\<close> is set, the flag is still set afterwards; below \<^verbatim>\<open>TLEN\<close>, every entry of
  \<^verbatim>\<open>rxtime\<close> and \<^verbatim>\<open>accel\<close> is zero, and every entry of \<^verbatim>\<open>xtime\<close> and \<^verbatim>\<open>temp\<close> is zero except
  entries \<open>1..npts\<close>, which hold the pairs the failed call read, up to the one with the zero
  tempo; and \<^verbatim>\<open>time_beat\<close> and \<^verbatim>\<open>beat_time\<close> then compute with these arrays (the branch
  after the test of \<^verbatim>\<open>tset\<close>), not with the earlier map.
\<close>

theorem tempo_failed_call_not_atomic:
  assumes "tempo_wf s" and "tset s \<noteq> 0" and "tempo p n_args s = (TempoDied, s')"
  shows "tset s' = tset s \<and>
         (\<forall>i<TLEN. rxtime s' ! i = Finite 0 \<and> accel s' ! i = Finite 0 \<and>
            (if 1 \<le> i \<and> int i \<le> npts s'
             then xtime s' ! i = p (2 * (i - 1)) \<and> temp s' ! i = fp_div (p (2 * i - 1)) (BASIS s)
             else xtime s' ! i = Finite 0 \<and> temp s' ! i = Finite 0)) \<and>
         time_beat t s' = time_beat_mapped (if fp_lt t (Finite 0) then Finite 0 else t) s' \<and>
         beat_time b s' = beat_time_mapped b s'"
proof -
  note d = tempo_died_state[OF assms(1,3)]
  have "if 1 \<le> i \<and> int i \<le> npts s'
        then xtime s' ! i = p (2 * (i - 1)) \<and> temp s' ! i = fp_div (p (2 * i - 1)) (BASIS s)
        else xtime s' ! i = Finite 0 \<and> temp s' ! i = Finite 0" if "i < TLEN" for i
  proof -
    have "int i \<le> npts s' \<longleftrightarrow> i \<le> nat (npts s')" using d by auto
    with d that show ?thesis by (simp add: written_upto_def)
  qed
  with d assms(2) show ?thesis
    by (simp add: time_beat_def beat_time_def)
qed

text \<open>The failed call \<^verbatim>\<open>tempo(0, 0)\<close> after \<^verbatim>\<open>tempo(0, 60)\<close>.\<close>

theorem tempo_failed_call_not_atomic_witness:
  "tempo_wf map_60 \<and> tset map_60 \<noteq> 0 \<and>
   fst (tempo (args_of [Finite 0, Finite 0]) 2 map_60) = TempoDied \<and>
   tset (snd (tempo (args_of [Finite 0, Finite 0]) 2 map_60)) = 1 \<and>
   rxtime (snd (tempo (args_of [Finite 0, Finite 0]) 2 map_60)) ! 5 = Finite 0 \<and>
   accel (snd (tempo (args_of [Finite 0, Finite 0]) 2 map_60)) ! 5 = Finite 0 \<and>
   time_beat (Finite 3) (snd (tempo (args_of [Finite 0, Finite 0]) 2 map_60)) =
     time_beat_mapped (Finite 3) (snd (tempo (args_of [Finite 0, Finite 0]) 2 map_60))"
proof -
  let ?p = "args_of [Finite 0, Finite 0]"
  note m = map_60_set
  have d: "fst (tempo ?p 2 map_60) = TempoDied"
    using tempo_zero_dies[of map_60 2 0 ?p] m by (simp add: args_of_def)
  then have e: "tempo ?p 2 map_60 = (TempoDied, snd (tempo ?p 2 map_60))"
    by (metis prod.collapse)
  have w: "tempo_wf map_60" and t: "tset map_60 \<noteq> 0" using m by simp_all
  from tempo_failed_call_not_atomic[OF w t e, of "Finite 3" "Finite 0"] m d
  show ?thesis by (simp add: TLEN_def)
qed

text \<open>
  After \<^verbatim>\<open>tempo(0, 60)\<close>, the failed call \<^verbatim>\<open>tempo(5, 60, 4, 0)\<close> leaves \<^verbatim>\<open>xtime[1] = 5\<close> and
  \<^verbatim>\<open>temp[1] = 1\<close>: the arrays are not all zero.
\<close>

theorem tempo_failed_call_counterexample:
  "fst (tempo (args_of [Finite 0, Finite 60]) 2 tempo_init) = TempoSet \<and>
   fst (tempo (args_of [Finite 5, Finite 60, Finite 4, Finite 0]) 4 map_60) = TempoDied \<and>
   xtime (snd (tempo (args_of [Finite 5, Finite 60, Finite 4, Finite 0]) 4 map_60)) ! 1 = Finite 5 \<and>
   temp (snd (tempo (args_of [Finite 5, Finite 60, Finite 4, Finite 0]) 4 map_60)) ! 1 = Finite 1 \<and>
   Finite 5 \<noteq> Finite 0 \<and> Finite 1 \<noteq> Finite 0"
proof -
  let ?p = "args_of [Finite 5, Finite 60, Finite 4, Finite 0]"
  note m = map_60_set
  have d: "fst (tempo ?p 4 map_60) = TempoDied"
    using tempo_zero_dies[of map_60 4 1 ?p] m by (simp add: args_of_def)
  then have e: "tempo ?p 4 map_60 = (TempoDied, snd (tempo ?p 4 map_60))"
    by (metis prod.collapse)
  have w: "tempo_wf map_60" using m by simp
  from tempo_died_state[OF w e]
  have "written_upto ?p (BASIS map_60) (nat (npts (snd (tempo ?p 4 map_60))))
          (xtime (snd (tempo ?p 4 map_60))) (temp (snd (tempo ?p 4 map_60)))"
    and "1 \<le> npts (snd (tempo ?p 4 map_60))" by simp_all
  then have "xtime (snd (tempo ?p 4 map_60)) ! 1 = ?p 0 \<and>
             temp (snd (tempo ?p 4 map_60)) ! 1 = fp_div (?p 1) (BASIS map_60)"
    unfolding written_upto_def by (auto simp: TLEN_def dest!: spec[where x = 1])
  with m d show ?thesis by (simp add: args_of_def)
qed

subsection \<open>Past the last breakpoint\<close>

lemma zero_upto_replicate: "zero_upto n (replicate k (Finite 0)) = replicate k (Finite 0)"
proof -
  have "min n k + (k - n) = k" by simp
  then show ?thesis by (simp add: zero_upto_def flip: replicate_add)
qed

text \<open>The arrays after \<^verbatim>\<open>tempo(0, 60)\<close>: two breakpoints, the second the end mark.\<close>

definition map_60_arrays :: tempo_state where
  "map_60_arrays =
     \<lparr>xtime = (replicate 21 (Finite 0))[2 := Finite 9999990000],
      temp = (replicate 21 (Finite 0))[0 := Finite 1, 1 := Finite 1, 2 := Finite 1],
      rxtime = (replicate 21 (Finite 0))[2 := Finite 9999990000],
      accel = replicate 21 (Finite 0),
      BASIS = Finite 60, tset = 1, npts = 2\<rparr>"

lemma map_60_pre:
  "map_60 = tempo_fill 0 (Finite 0)
     \<lparr>xtime = (replicate 21 (Finite 0))[1 := Finite 0, 2 := Finite 9999990000, 0 := Finite 0],
      temp = (replicate 21 (Finite 0))[1 := Finite 1, 2 := Finite 1, 0 := Finite 1],
      rxtime = (replicate 21 (Finite 0))[2 := Finite 9999990000, 0 := Finite 0],
      accel = (replicate 21 (Finite 0))[0 := Finite 0],
      BASIS = Finite 60, tset = 1, npts = 2\<rparr>"
  by (simp add: map_60_def tempo_def tempo_read.simps Let_def tempo_clear_def zero_upto_replicate
      tempo_init_def TLEN_def TLENP_def args_of_def)

lemma map_60_value: "map_60 = map_60_arrays"
proof -
  have a: "tempo_fill 0 (Finite 0)
     \<lparr>xtime = (replicate 21 (Finite 0))[1 := Finite 0, 2 := Finite 9999990000, 0 := Finite 0],
      temp = (replicate 21 (Finite 0))[1 := Finite 1, 2 := Finite 1, 0 := Finite 1],
      rxtime = (replicate 21 (Finite 0))[2 := Finite 9999990000, 0 := Finite 0],
      accel = (replicate 21 (Finite 0))[0 := Finite 0],
      BASIS = Finite 60, tset = 1, npts = 2\<rparr> =
    tempo_fill 1 (Finite 0)
     \<lparr>xtime = (replicate 21 (Finite 0))[1 := Finite 0, 2 := Finite 9999990000, 0 := Finite 0],
      temp = (replicate 21 (Finite 0))[1 := Finite 1, 2 := Finite 1, 0 := Finite 1],
      rxtime = (replicate 21 (Finite 0))[2 := Finite 9999990000, 0 := Finite 0, 1 := Finite 0],
      accel = (replicate 21 (Finite 0))[0 := Finite 0, 0 := Finite 0],
      BASIS = Finite 60, tset = 1, npts = 2\<rparr>"
    by (subst tempo_fill.simps) (simp add: Let_def fp_sub_def eval_nat_numeral)
  have b: "tempo_fill 1 (Finite 0)
     \<lparr>xtime = (replicate 21 (Finite 0))[1 := Finite 0, 2 := Finite 9999990000, 0 := Finite 0],
      temp = (replicate 21 (Finite 0))[1 := Finite 1, 2 := Finite 1, 0 := Finite 1],
      rxtime = (replicate 21 (Finite 0))[2 := Finite 9999990000, 0 := Finite 0, 1 := Finite 0],
      accel = (replicate 21 (Finite 0))[0 := Finite 0, 0 := Finite 0],
      BASIS = Finite 60, tset = 1, npts = 2\<rparr> =
    tempo_fill 2 (Finite 9999990000)
     \<lparr>xtime = (replicate 21 (Finite 0))[1 := Finite 0, 2 := Finite 9999990000, 0 := Finite 0],
      temp = (replicate 21 (Finite 0))[1 := Finite 1, 2 := Finite 1, 0 := Finite 1],
      rxtime = (replicate 21 (Finite 0))[2 := Finite 9999990000, 0 := Finite 0, 1 := Finite 0,
                  2 := Finite 9999990000],
      accel = (replicate 21 (Finite 0))[0 := Finite 0, 0 := Finite 0, 1 := Finite 0],
      BASIS = Finite 60, tset = 1, npts = 2\<rparr>"
    by (subst tempo_fill.simps) (simp add: Let_def fp_sub_def TWO_def eval_nat_numeral)
  have c: "tempo_fill 2 pr
     \<lparr>xtime = xs, temp = ts, rxtime = rs, accel = as, BASIS = Finite 60, tset = 1, npts = 2\<rparr> =
     \<lparr>xtime = xs, temp = ts, rxtime = rs, accel = as, BASIS = Finite 60, tset = 1, npts = 2\<rparr>"
    for pr xs ts rs as
    by (subst tempo_fill.simps) simp
  show ?thesis
    unfolding map_60_pre a b c map_60_arrays_def
    by (simp add: list_eq_iff_nth_eq nth_list_update)
qed

text \<open>
  Claim C5 against the code. After \<^verbatim>\<open>tempo(0, 60)\<close> the last breakpoint is the end mark
  \<^verbatim>\<open>.999999e+10\<close>. For the beat \<open>2e10\<close> the search loop of \<^verbatim>\<open>beat_time\<close> runs out with
  \<^verbatim>\<open>m = npts + 1\<close> and the entries read there are zero: \<^verbatim>\<open>beat_time(2e10)\<close> is \<open>0\<close>, and
  \<^verbatim>\<open>time_beat\<close> of that is \<open>0\<close>, not \<open>2e10\<close>. In the other direction \<^verbatim>\<open>time_beat(2e10)\<close> divides
  zero by \<^verbatim>\<open>temp[npts + 1] = 0\<close>. No step of either computation rounds.
\<close>

theorem tempo_round_trip_past_last_breakpoint:
  "fst (tempo (args_of [Finite 0, Finite 60]) 2 tempo_init) = TempoSet \<and>
   beat_time (Finite 20000000000) map_60 = Finite 0 \<and>
   time_beat (beat_time (Finite 20000000000) map_60) map_60 = Finite 0 \<and>
   \<not> \<bar>0 - 20000000000\<bar> \<le> (1 / 1000000 :: real) \<and>
   time_beat (Finite 20000000000) map_60 = NaN \<and>
   beat_time (time_beat (Finite 20000000000) map_60) map_60 = NaN"
proof -
  have s: "fst (tempo (args_of [Finite 0, Finite 60]) 2 tempo_init) = TempoSet"
    using map_60_set by simp
  have b: "beat_time (Finite 20000000000) map_60 = Finite 0"
    unfolding map_60_value
    by (simp add: beat_time_def beat_time_mapped_def map_60_arrays_def Let_def fp_gt_def fp_le_def
        fp_sub_def eval_nat_numeral)
  have t0: "time_beat (Finite 0) map_60 = Finite 0"
    unfolding map_60_value
    by (simp add: time_beat_def time_beat_mapped_def map_60_arrays_def Let_def fp_gt_def fp_le_def
        fp_sub_def eval_nat_numeral)
  have t: "time_beat (Finite 20000000000) map_60 = NaN"
    unfolding map_60_value
    by (simp add: time_beat_def time_beat_mapped_def map_60_arrays_def Let_def fp_gt_def fp_le_def
        fp_sub_def eval_nat_numeral)
  have n: "beat_time NaN map_60 = NaN"
    unfolding map_60_value
    by (simp add: beat_time_def beat_time_mapped_def map_60_arrays_def Let_def fp_gt_def fp_le_def
        fp_sub_def eval_nat_numeral)
  from s b t0 t n show ?thesis by simp
qed

section \<open>The bus graph\<close>

subsection \<open>Data\<close>

text \<open>
  A \<^verbatim>\<open>CheckNode\<close>: the array \<^verbatim>\<open>bus_list\<close> and the number \<^verbatim>\<open>bus_count\<close> of entries in use.
\<close>

record CheckNode =
  bus_list :: "int list"
  bus_count :: int

text \<open>
  One entry of \<^verbatim>\<open>BusConfigs\<close>. \<^verbatim>\<open>In_Config\<close> is a pointer (\<open>None\<close> before the first check
  allocates it): the parent list of the bus.
\<close>

record BusConfig =
  In_Config :: "CheckNode option"
  HasChild :: bool
  HasParent :: bool
  AuxInUse :: bool
  AuxOutInUse :: bool
  OutInUse :: bool
  RevPlay :: int

text \<open>A \<^verbatim>\<open>BusSlot\<close>: four arrays of \<^verbatim>\<open>busCount\<close> shorts and their counts.\<close>

record BusSlot =
  slot_in :: "int list"
  slot_out :: "int list"
  auxin :: "int list"
  auxout :: "int list"
  in_count :: int
  out_count :: int
  auxin_count :: int
  auxout_count :: int

text \<open>
  What the engine fixes before any \<^verbatim>\<open>bus_config\<close>: the number of buses, the number of
  output channels, the size \<^verbatim>\<open>MAXBUS\<close> of the static arrays, and whether \<^verbatim>\<open>rtsetparams\<close>
  has been called.
\<close>

record engine =
  busCount :: nat
  NCHANS :: int
  MAXBUS :: nat
  rtsetparams_was_called :: bool

text \<open>
  The mutable state of \<^verbatim>\<open>bus_config.cpp\<close>. \<^verbatim>\<open>Inst_Bus_Config\<close> is the queue of instrument
  names, each with its chain of slots (the head first).
\<close>

record bus_state =
  BusConfigs :: "BusConfig list"
  Visited :: "bool list"
  AuxToAuxPlayList :: "int list"
  ToAuxPlayList :: "int list"
  ToOutPlayList :: "int list"
  Bus_Config_Status :: bool
  Inst_Bus_Config :: "(string \<times> BusSlot list) list"

definition zeroConfig :: BusConfig where
  "zeroConfig =
     \<lparr>In_Config = None, HasChild = False, HasParent = False, AuxInUse = False,
      AuxOutInUse = False, OutInUse = False, RevPlay = 0\<rparr>"

text \<open>The state before the first call: no configuration, the play lists filled with \<open>-1\<close>.\<close>

definition bus_init :: "engine \<Rightarrow> bus_state" where
  "bus_init e =
     \<lparr>BusConfigs = replicate (busCount e) zeroConfig,
      Visited = replicate (MAXBUS e) False,
      AuxToAuxPlayList = replicate (busCount e) (- 1),
      ToAuxPlayList = replicate (busCount e) (- 1),
      ToOutPlayList = replicate (busCount e) (- 1),
      Bus_Config_Status = False,
      Inst_Bus_Config = []\<rparr>"

definition new_BusSlot :: "nat \<Rightarrow> BusSlot" where
  "new_BusSlot n =
     \<lparr>slot_in = replicate n 0, slot_out = replicate n 0, auxin = replicate n 0,
      auxout = replicate n 0, in_count = 0, out_count = 0, auxin_count = 0, auxout_count = 0\<rparr>"

subsection \<open>Array accesses\<close>

text \<open>A write \<^verbatim>\<open>a[i] = v\<close> and a read \<^verbatim>\<open>a[i]\<close>; outside the array both are undefined.\<close>

definition awrite :: "'a list \<Rightarrow> int \<Rightarrow> 'a \<Rightarrow> 'a list option" where
  "awrite xs i v = (if 0 \<le> i \<and> i < int (length xs) then Some (xs[nat i := v]) else None)"

definition aread :: "'a list \<Rightarrow> int \<Rightarrow> 'a option" where
  "aread xs i = (if 0 \<le> i \<and> i < int (length xs) then Some (xs ! nat i) else None)"

text \<open>
  The entries \<^verbatim>\<open>a[0..n-1]\<close> that a loop \<^verbatim>\<open>for (i = 0; i < n; i++)\<close> reads: none when \<open>n\<close> is
  not positive, undefined when \<open>n\<close> exceeds the array.
\<close>

definition prefix_of :: "'a list \<Rightarrow> int \<Rightarrow> 'a list option" where
  "prefix_of xs n =
     (if n \<le> 0 then Some [] else if n \<le> int (length xs) then Some (take (nat n) xs) else None)"

text \<open>The parent list of a bus as the traversal reads it: \<^verbatim>\<open>bus_list[0..bus_count-1]\<close>.\<close>

definition parents_of :: "BusConfig \<Rightarrow> int list option" where
  "parents_of b = (case In_Config b of None \<Rightarrow> None | Some n \<Rightarrow> prefix_of (bus_list n) (bus_count n))"

subsection \<open>check\_bus\_inst\_config\<close>

text \<open>The allocation of the parent lists at the first check (their contents are
  uninitialised in the code and never read before they are written; the model fills
  them with zero).\<close>

definition alloc_in_config :: "engine \<Rightarrow> bus_state \<Rightarrow> bus_state" where
  "alloc_in_config e s =
     (if Bus_Config_Status s then s
      else s\<lparr>BusConfigs :=
                map (\<lambda>b. b\<lparr>In_Config := Some \<lparr>bus_list = replicate (busCount e) 0, bus_count = 0\<rparr>\<rparr>)
                    (BusConfigs s),
              Bus_Config_Status := True\<rparr>)"

text \<open>
  The loop over all buses at the start of a check: it clears \<^verbatim>\<open>Visited\<close> when \<^verbatim>\<open>visit\<close> is
  set, clears \<^verbatim>\<open>RevPlay\<close>, and rewrites the front of \<^verbatim>\<open>ToOutPlayList\<close> and \<^verbatim>\<open>ToAuxPlayList\<close>.
\<close>

definition overwrite_front :: "'a list \<Rightarrow> 'a list \<Rightarrow> 'a list" where
  "overwrite_front new xs = new @ drop (length new) xs"

definition reset_for_check :: "engine \<Rightarrow> bool \<Rightarrow> bus_state \<Rightarrow> bus_state" where
  "reset_for_check e visit s =
     (let n = busCount e in
      s\<lparr>Visited := (if visit then overwrite_front (replicate n False) (Visited s) else Visited s),
        BusConfigs := map (\<lambda>b. b\<lparr>RevPlay := - 1\<rparr>) (BusConfigs s),
        ToOutPlayList :=
          overwrite_front (map int [i \<leftarrow> [0..<n]. OutInUse (BusConfigs s ! i)]) (ToOutPlayList s),
        ToAuxPlayList :=
          overwrite_front (map int [i \<leftarrow> [0..<n]. AuxOutInUse (BusConfigs s ! i)]) (ToAuxPlayList s)\<rparr>)"

text \<open>
  The state of the traversal: the bus state, the local array \<^verbatim>\<open>Checked\<close> and the counter
  \<^verbatim>\<open>r_p_count\<close>.
\<close>

record walk =
  bs :: bus_state
  Checked :: "bool list"
  r_p_count :: nat

text \<open>
  What the body of the loop over one node's list does with the entry \<open>t_in\<close>. \<open>outs\<close> is
  \<^verbatim>\<open>slot->auxout[0..auxout_count-1]\<close>. The result is the error code (\<^verbatim>\<open>LOOP_ERR\<close> for the
  early return, \<^verbatim>\<open>NO_ERR\<close> to go on), the new state and the parent lists put on the queue.
  \<open>None\<close>: \<open>t_in\<close> is not an index of the arrays, a parent list is not allocated, or
  \<^verbatim>\<open>RevPlay\<close> is written past the last bus.
\<close>

definition check_entry ::
  "engine \<Rightarrow> int list \<Rightarrow> int \<Rightarrow> walk \<Rightarrow> (ErrCode \<times> walk \<times> int list list) option" where
  "check_entry e outs t_in w =
     (if t_in < 0 \<or> t_in \<ge> int (busCount e) \<or> nat t_in \<ge> length (BusConfigs (bs w))
         \<or> nat t_in \<ge> length (Checked w) \<or> nat t_in \<ge> length (Visited (bs w)) then None
      else
        let t = nat t_in in
        if \<not> Checked w ! t \<and> t_in \<in> set outs then Some (LOOP_ERR, w, [])
        else
          let w1 = w\<lparr>Checked := (Checked w)[t := True]\<rparr>;
              b = BusConfigs (bs w1) ! t
          in case In_Config b of
               None \<Rightarrow> None
             | Some node \<Rightarrow>
                 if bus_count node > 0 \<and> \<not> Visited (bs w1) ! t then
                   (case prefix_of (bus_list node) (bus_count node) of
                      None \<Rightarrow> None
                    | Some ps \<Rightarrow>
                        if HasParent b then
                          (if r_p_count w1 \<ge> length (BusConfigs (bs w1)) then None
                           else
                             let k = r_p_count w1;
                                 cfgs = (BusConfigs (bs w1))[k := (BusConfigs (bs w1) ! k)\<lparr>RevPlay := t_in\<rparr>];
                                 s2 = (bs w1)\<lparr>BusConfigs := cfgs, Visited := (Visited (bs w1))[t := True]\<rparr>
                             in Some (NO_ERR, w1\<lparr>bs := s2, r_p_count := k + 1\<rparr>, [ps]))
                        else
                          Some (NO_ERR,
                                w1\<lparr>bs := (bs w1)\<lparr>Visited := (Visited (bs w1))[t := True]\<rparr>\<rparr>, [ps]))
                 else Some (NO_ERR, w1, []))"

text \<open>The loop \<^verbatim>\<open>for (i=0;i<in_check_count;i++)\<close> over one node's list.\<close>

fun check_list ::
  "engine \<Rightarrow> int list \<Rightarrow> int list \<Rightarrow> walk \<Rightarrow> (ErrCode \<times> walk \<times> int list list) option" where
  "check_list e outs [] w = Some (NO_ERR, w, [])"
| "check_list e outs (t_in # rest) w =
     (case check_entry e outs t_in w of
        None \<Rightarrow> None
      | Some (err, w1, q1) \<Rightarrow>
          if err \<noteq> NO_ERR then Some (err, w1, q1)
          else
            (case check_list e outs rest w1 of
               None \<Rightarrow> None
             | Some (err2, w2, q2) \<Rightarrow> Some (err2, w2, q1 @ q2)))"

text \<open>The number of buses not yet marked in \<^verbatim>\<open>Visited\<close>.\<close>

definition unvisited :: "walk \<Rightarrow> nat" where
  "unvisited w = length (filter Not (Visited (bs w)))"

lemma unvisited_mark:
  "t < length vs \<Longrightarrow> \<not> vs ! t \<Longrightarrow> Suc (length (filter Not (vs[t := True]))) = length (filter Not vs)"
proof (induction vs arbitrary: t)
  case Nil
  then show ?case by simp
next
  case (Cons v vs)
  then show ?case by (cases t) auto
qed

lemma check_entry_unvisited:
  "check_entry e outs t_in w = Some (err, w1, q1) \<Longrightarrow> unvisited w1 + length q1 = unvisited w"
  by (auto simp: check_entry_def Let_def unvisited_def unvisited_mark
      split: if_splits option.splits)

lemma check_list_unvisited:
  "check_list e outs l w = Some (err, w1, q1) \<Longrightarrow> unvisited w1 + length q1 = unvisited w"
proof (induction l arbitrary: w err w1 q1)
  case Nil
  then show ?case by simp
next
  case (Cons t l)
  then show ?case
    by (fastforce split: option.splits if_splits prod.splits dest: check_entry_unvisited)
qed

text \<open>The loop \<^verbatim>\<open>while (in_check_queue)\<close>: the queue holds the lists still to be read.\<close>

function check_queue ::
  "engine \<Rightarrow> int list \<Rightarrow> int list list \<Rightarrow> walk \<Rightarrow> (ErrCode \<times> walk) option" where
  "check_queue e outs [] w = Some (NO_ERR, w)"
| "check_queue e outs (l # q) w =
     (case check_list e outs l w of
        None \<Rightarrow> None
      | Some (err, w1, q1) \<Rightarrow>
          if err \<noteq> NO_ERR then Some (err, w1) else check_queue e outs (q @ q1) w1)"
  by pat_completeness auto
termination
proof (relation "measure (\<lambda>(e, outs, q, w). 2 * unvisited w + length q)")
  show "wf (measure (\<lambda>(e, outs, q, w). 2 * unvisited w + length q))" by simp
next
  fix e outs l q w x2 err y w1 q1
  assume "check_list e outs l w = Some x2" "(err, y) = x2" "(w1, q1) = y"
  then have "check_list e outs l w = Some (err, w1, q1)" by simp
  from check_list_unvisited[OF this]
  show "((e, outs, q @ q1, w1), (e, outs, l # q, w)) \<in>
          measure (\<lambda>(e, outs, q, w). 2 * unvisited w + length q)"
    by simp
qed

text \<open>
  \<^verbatim>\<open>check_bus_inst_config(slot, visit)\<close>: the error code returned and the state left. The
  first node on the queue is the slot's \<^verbatim>\<open>auxin\<close> list.
\<close>

definition check_bus_inst_config ::
  "engine \<Rightarrow> BusSlot \<Rightarrow> bool \<Rightarrow> bus_state \<Rightarrow> (ErrCode \<times> bus_state) option" where
  "check_bus_inst_config e slot visit s =
     (let s1 = reset_for_check e visit (alloc_in_config e s);
          w = \<lparr>bs = s1, Checked = replicate (MAXBUS e) False, r_p_count = 0\<rparr>
      in case prefix_of (auxin slot) (auxin_count slot) of
           None \<Rightarrow> None
         | Some ins \<Rightarrow>
             if ins = [] then Some (NO_ERR, s1)
             else
               (case prefix_of (auxout slot) (auxout_count slot) of
                  None \<Rightarrow> None
                | Some outs \<Rightarrow> map_option (\<lambda>(err, w1). (err, bs w1)) (check_queue e outs [ins] w)))"

subsection \<open>insert\_bus\_slot\<close>

text \<open>
  The body of the inner loop: the edge from the aux input \<open>s_in\<close> to the aux output
  \<open>s_out\<close>. The value \<open>333\<close> stands for no bus.
\<close>

definition insert_edge :: "engine \<Rightarrow> int \<Rightarrow> int \<Rightarrow> bus_state \<Rightarrow> bus_state option" where
  "insert_edge e s_out s_in s =
     (case aread (BusConfigs s) s_out of
        None \<Rightarrow> None
      | Some outbus \<Rightarrow>
          let outbus1 = (if \<not> HasParent outbus \<and> s_in \<noteq> 333 then outbus\<lparr>HasParent := True\<rparr> else outbus)
          in case In_Config outbus1 of
               None \<Rightarrow> None
             | Some node \<Rightarrow>
                 if s_in = 333 then Some (s\<lparr>BusConfigs := (BusConfigs s)[nat s_out := outbus1]\<rparr>)
                 else
                   (case awrite (bus_list node) (bus_count node) s_in of
                      None \<Rightarrow> None
                    | Some bl \<Rightarrow>
                        let c = bus_count node + 1;
                            node1 = \<lparr>bus_list = bl, bus_count = (if c \<ge> int (busCount e) then 0 else c)\<rparr>;
                            cfgs1 = (BusConfigs s)[nat s_out := outbus1\<lparr>In_Config := Some node1\<rparr>]
                        in (case aread cfgs1 s_in of
                              None \<Rightarrow> None
                            | Some inbus \<Rightarrow>
                                Some (s\<lparr>BusConfigs :=
                                         cfgs1[nat s_in := inbus\<lparr>HasChild := True, AuxInUse := True\<rparr>]\<rparr>))))"

fun insert_edges :: "engine \<Rightarrow> int \<Rightarrow> int list \<Rightarrow> bus_state \<Rightarrow> bus_state option" where
  "insert_edges e s_out [] s = Some s"
| "insert_edges e s_out (s_in # rest) s =
     (case insert_edge e s_out s_in s of None \<Rightarrow> None | Some s1 \<Rightarrow> insert_edges e s_out rest s1)"

text \<open>The body of the outer loop, for the aux output \<open>s_out\<close>.\<close>

definition insert_out :: "engine \<Rightarrow> int list \<Rightarrow> int \<Rightarrow> bus_state \<Rightarrow> bus_state option" where
  "insert_out e ins s_out s =
     (case aread (BusConfigs s) s_out of
        None \<Rightarrow> None
      | Some outbus \<Rightarrow>
          insert_edges e s_out ins (s\<lparr>BusConfigs := (BusConfigs s)[nat s_out := outbus\<lparr>AuxInUse := True\<rparr>]\<rparr>))"

fun insert_outs :: "engine \<Rightarrow> int list \<Rightarrow> int list \<Rightarrow> bus_state \<Rightarrow> bus_state option" where
  "insert_outs e ins [] s = Some s"
| "insert_outs e ins (s_out # rest) s =
     (case insert_out e ins s_out s of None \<Rightarrow> None | Some s1 \<Rightarrow> insert_outs e ins rest s1)"

text \<open>
  The queue of instruments: a slot for a name already in the queue takes the place of
  that name's head slot (its \<^verbatim>\<open>next\<close> is the old head's \<^verbatim>\<open>next\<close>); a new name goes to the end.
\<close>

fun insert_queue :: "string \<Rightarrow> BusSlot \<Rightarrow> (string \<times> BusSlot list) list \<Rightarrow> (string \<times> BusSlot list) list" where
  "insert_queue name slot [] = [(name, [slot])]"
| "insert_queue name slot ((n, chain) # q) =
     (if n = name then (n, slot # tl chain) # q else (n, chain) # insert_queue name slot q)"

text \<open>\<^verbatim>\<open>insert_bus_slot(name, slot)\<close>; it always returns \<^verbatim>\<open>NO_ERR\<close>.\<close>

definition insert_bus_slot :: "engine \<Rightarrow> string \<Rightarrow> BusSlot \<Rightarrow> bus_state \<Rightarrow> bus_state option" where
  "insert_bus_slot e name slot s =
     (case prefix_of (auxout slot) (auxout_count slot) of
        None \<Rightarrow> None
      | Some outs \<Rightarrow>
          if outs = [] then Some (s\<lparr>Inst_Bus_Config := insert_queue name slot (Inst_Bus_Config s)\<rparr>)
          else
            (case prefix_of (auxin slot) (auxin_count slot) of
               None \<Rightarrow> None
             | Some ins \<Rightarrow>
                 map_option (\<lambda>s1. s1\<lparr>Inst_Bus_Config := insert_queue name slot (Inst_Bus_Config s1)\<rparr>)
                   (insert_outs e ins outs s)))"

subsection \<open>create\_play\_order\<close>

text \<open>
  \<^verbatim>\<open>bf_traverse(bus, visit)\<close>: a check of a temporary slot whose only aux input is the bus
  and whose only aux output is \<open>333\<close>; the error code is dropped.
\<close>

definition bf_traverse :: "engine \<Rightarrow> int \<Rightarrow> bool \<Rightarrow> bus_state \<Rightarrow> bus_state option" where
  "bf_traverse e bus visit s =
     (let t0 = new_BusSlot (busCount e) in
      case awrite (auxin t0) 0 bus of
        None \<Rightarrow> None
      | Some ai \<Rightarrow>
          (case awrite (auxout t0) 0 333 of
             None \<Rightarrow> None
           | Some ao \<Rightarrow>
               map_option snd
                 (check_bus_inst_config e
                    (t0\<lparr>auxin := ai, auxin_count := 1, auxout := ao, auxout_count := 1\<rparr>) visit s)))"

text \<open>\<^verbatim>\<open>AuxToAuxPlayList[aux_p_count++] = v\<close> for each \<open>v\<close> of a list, in order.\<close>

fun play_put :: "int list \<Rightarrow> nat \<Rightarrow> int list \<Rightarrow> (int list \<times> nat) option" where
  "play_put pl k [] = Some (pl, k)"
| "play_put pl k (v # vs) =
     (case awrite pl (int k) v of None \<Rightarrow> None | Some pl1 \<Rightarrow> play_put pl1 (k + 1) vs)"

text \<open>
  The second loop of \<^verbatim>\<open>create_play_order\<close>, over the buses \<open>is\<close> still to be looked at:
  from each aux bus in use without a child, a traversal, and then the entries of
  \<^verbatim>\<open>RevPlay\<close> other than \<open>-1\<close>, from the last bus down to the first.
\<close>

fun play_leaves :: "engine \<Rightarrow> nat list \<Rightarrow> bool \<Rightarrow> nat \<Rightarrow> bus_state \<Rightarrow> bus_state option" where
  "play_leaves e [] visit k s = Some s"
| "play_leaves e (i # is) visit k s =
     (if AuxInUse (BusConfigs s ! i) \<and> \<not> HasChild (BusConfigs s ! i) then
        (case bf_traverse e (int i) visit s of
           None \<Rightarrow> None
         | Some s1 \<Rightarrow>
             (case play_put (AuxToAuxPlayList s1) k
                     [v \<leftarrow> rev (map RevPlay (take (busCount e) (BusConfigs s1))). v \<noteq> - 1] of
                None \<Rightarrow> None
              | Some (pl, k1) \<Rightarrow> play_leaves e is False k1 (s1\<lparr>AuxToAuxPlayList := pl\<rparr>)))
      else play_leaves e is visit k s)"

definition create_play_order :: "engine \<Rightarrow> bus_state \<Rightarrow> bus_state option" where
  "create_play_order e s =
     (case play_put (AuxToAuxPlayList s) 0
             (map int [i \<leftarrow> [0..<busCount e]. AuxInUse (BusConfigs s ! i) \<and> \<not> HasParent (BusConfigs s ! i)]) of
        None \<Rightarrow> None
      | Some (pl, k) \<Rightarrow> play_leaves e [0..<busCount e] True k (s\<lparr>AuxToAuxPlayList := pl\<rparr>))"

subsection \<open>bus\_config\<close>

text \<open>The loop \<^verbatim>\<open>for (k = startchan; k <= endchan; k++) a[j++] = k\<close>.\<close>

fun write_range :: "int list \<Rightarrow> int \<Rightarrow> int list \<Rightarrow> int list option" where
  "write_range a j [] = Some a"
| "write_range a j (k # ks) =
     (case awrite a j k of None \<Rightarrow> None | Some a1 \<Rightarrow> write_range a1 (j + 1) ks)"

text \<open>Setting a flag of \<^verbatim>\<open>BusConfigs[k]\<close> for each \<open>k\<close> of a range.\<close>

fun mark_range :: "(BusConfig \<Rightarrow> BusConfig) \<Rightarrow> int list \<Rightarrow> BusConfig list \<Rightarrow> BusConfig list option" where
  "mark_range f [] cfgs = Some cfgs"
| "mark_range f (k # ks) cfgs =
     (case aread cfgs k of None \<Rightarrow> None | Some b \<Rightarrow> mark_range f ks (cfgs[nat k := f b]))"

text \<open>
  What the loop over the bus names carries: the slot being built, the two chain counts
  and the bus state.
\<close>

record building =
  bus_slot :: BusSlot
  chain_incount :: int
  chain_outcount :: int
  bst :: bus_state

text \<open>
  One pass of the loop, for the bus name \<open>busname\<close>. \<open>Inl code\<close> is \<^verbatim>\<open>RTExit(code)\<close>, which
  ends the call. The strings \<^verbatim>\<open>inbusses\<close> and \<^verbatim>\<open>outbusses\<close> of the closing message are left
  out.
\<close>

definition config_one :: "engine \<Rightarrow> string option \<Rightarrow> building \<Rightarrow> (ErrCode + building) option" where
  "config_one e busname b =
     (case parse_bus_name busname (int (busCount e)) of
        None \<Rightarrow> None
      | Some (Inl err) \<Rightarrow>
          Some (Inl (if err = UNKNOWN_ERR then SYSTEM_ERROR else PARAM_ERROR))
      | Some (Inr (type, startchan, endchan)) \<Rightarrow>
          let sl = bus_slot b; n = (endchan - startchan) + 1 in
          (case type of
             BUS_IN \<Rightarrow>
               if auxin_count sl > 0 then Some (Inl PARAM_ERROR)
               else if chain_incount b > 0 then Some (Inl PARAM_ERROR)
               else if endchan \<ge> NCHANS e then Some (Inl PARAM_ERROR)
               else
                 (case write_range (slot_in sl) (in_count sl) [startchan..endchan] of
                    None \<Rightarrow> None
                  | Some a \<Rightarrow> Some (Inr (b\<lparr>bus_slot := sl\<lparr>slot_in := a, in_count := in_count sl + n\<rparr>\<rparr>)))
           | BUS_OUT \<Rightarrow>
               if auxout_count sl > 0 then Some (Inl PARAM_ERROR)
               else if chain_outcount b > 0 then Some (Inl PARAM_ERROR)
               else if endchan \<ge> NCHANS e then Some (Inl PARAM_ERROR)
               else
                 (case write_range (slot_out sl) (out_count sl) [startchan..endchan] of
                    None \<Rightarrow> None
                  | Some a \<Rightarrow>
                      (case mark_range (\<lambda>c. c\<lparr>OutInUse := True\<rparr>) [startchan..endchan]
                              (BusConfigs (bst b)) of
                         None \<Rightarrow> None
                       | Some cfgs \<Rightarrow>
                           Some (Inr (b\<lparr>bus_slot := sl\<lparr>slot_out := a, out_count := out_count sl + n\<rparr>,
                                        bst := (bst b)\<lparr>BusConfigs := cfgs\<rparr>\<rparr>))))
           | BUS_AUX_IN \<Rightarrow>
               if in_count sl > 0 then Some (Inl PARAM_ERROR)
               else if chain_incount b > 0 then Some (Inl PARAM_ERROR)
               else
                 (case write_range (auxin sl) (auxin_count sl) [startchan..endchan] of
                    None \<Rightarrow> None
                  | Some a \<Rightarrow>
                      Some (Inr (b\<lparr>bus_slot := sl\<lparr>auxin := a, auxin_count := auxin_count sl + n\<rparr>\<rparr>)))
           | BUS_AUX_OUT \<Rightarrow>
               if out_count sl > 0 then Some (Inl PARAM_ERROR)
               else if chain_outcount b > 0 then Some (Inl PARAM_ERROR)
               else
                 (case write_range (auxout sl) (auxout_count sl) [startchan..endchan] of
                    None \<Rightarrow> None
                  | Some a \<Rightarrow>
                      (case mark_range (\<lambda>c. c\<lparr>AuxOutInUse := True\<rparr>) [startchan..endchan]
                              (BusConfigs (bst b)) of
                         None \<Rightarrow> None
                       | Some cfgs \<Rightarrow>
                           Some (Inr (b\<lparr>bus_slot := sl\<lparr>auxout := a, auxout_count := auxout_count sl + n\<rparr>,
                                        bst := (bst b)\<lparr>BusConfigs := cfgs\<rparr>\<rparr>))))
           | BUS_NONE_IN \<Rightarrow>
               if in_count sl + auxin_count sl > 0 then Some (Inl PARAM_ERROR)
               else Some (Inr (b\<lparr>chain_incount := chain_incount b + n\<rparr>))
           | BUS_NONE_OUT \<Rightarrow>
               if out_count sl + auxout_count sl > 0 then Some (Inl PARAM_ERROR)
               else Some (Inr (b\<lparr>chain_outcount := n\<rparr>))))"

text \<open>
  The loop over all bus names. When a pass ends the call, the bus state is the one the
  passes before it have left: the flags they set stay set.
\<close>

fun config_all ::
  "engine \<Rightarrow> string option list \<Rightarrow> building \<Rightarrow> ((ErrCode \<times> bus_state) + building) option" where
  "config_all e [] b = Some (Inr b)"
| "config_all e (busname # rest) b =
     (case config_one e busname b of
        None \<Rightarrow> None
      | Some (Inl code) \<Rightarrow> Some (Inl (code, bst b))
      | Some (Inr b1) \<Rightarrow> config_all e rest b1)"

text \<open>How a call of \<^verbatim>\<open>bus_config\<close> ends: it returns, or it leaves through \<^verbatim>\<open>RTExit(code)\<close>.\<close>

datatype bus_result = Returned bus_state | Exited ErrCode bus_state

text \<open>
  The update of the counts after the insertion: the slot is the one in the queue, at the
  head of the chain of its instrument.
\<close>

fun bump_counts :: "string \<Rightarrow> int \<Rightarrow> int \<Rightarrow> (string \<times> BusSlot list) list \<Rightarrow> (string \<times> BusSlot list) list" where
  "bump_counts name ci co [] = []"
| "bump_counts name ci co ((n, chain) # q) =
     (if n = name then
        (case chain of
           [] \<Rightarrow> (n, chain) # q
         | sl # others \<Rightarrow>
             (n, sl\<lparr>auxin_count := auxin_count sl + ci, out_count := out_count sl + co\<rparr> # others) # q)
      else (n, chain) # bump_counts name ci co q)"

text \<open>
  \<^verbatim>\<open>bus_config(p, n_args)\<close> with the instrument name \<^verbatim>\<open>p[0]\<close> and the bus names
  \<^verbatim>\<open>p[1..n_args-1]\<close>. The allocation of the aux buffers is outside the bus graph and is
  left out.
\<close>

definition bus_config :: "engine \<Rightarrow> string \<Rightarrow> string option list \<Rightarrow> bus_state \<Rightarrow> bus_result option" where
  "bus_config e instname busnames s =
     (if 1 + length busnames < 2 then Some (Exited PARAM_ERROR s)
      else if \<not> rtsetparams_was_called e then Some (Exited PARAM_ERROR s)
      else
        case config_all e busnames
               \<lparr>bus_slot = new_BusSlot (busCount e), chain_incount = 0, chain_outcount = 0, bst = s\<rparr> of
          None \<Rightarrow> None
        | Some (Inl (code, s0)) \<Rightarrow> Some (Exited code s0)
        | Some (Inr b) \<Rightarrow>
            (case check_bus_inst_config e (bus_slot b) True (bst b) of
               None \<Rightarrow> None
             | Some (err, s1) \<Rightarrow>
                 if err \<noteq> NO_ERR then Some (Exited SYSTEM_ERROR s1)
                 else
                   (case insert_bus_slot e instname (bus_slot b) s1 of
                      None \<Rightarrow> None
                    | Some s2 \<Rightarrow>
                        map_option Returned
                          (create_play_order e
                             (s2\<lparr>Inst_Bus_Config :=
                                   bump_counts instname (chain_incount b) (chain_outcount b)
                                     (Inst_Bus_Config s2)\<rparr>)))))"

subsection \<open>The parent relation and the invariant of the traversal\<close>

text \<open>The parent list of a bus, empty while it is not allocated.\<close>

definition parent_list :: "BusConfig \<Rightarrow> int list" where
  "parent_list b = (case In_Config b of None \<Rightarrow> [] | Some n \<Rightarrow> take (nat (bus_count n)) (bus_list n))"

text \<open>The edges of the aux graph: \<open>(p, c)\<close> when \<open>p\<close> is in the parent list of bus \<open>c\<close>.\<close>

definition parent_rel :: "bus_state \<Rightarrow> (int \<times> int) set" where
  "parent_rel s = {(p, int c) | p c. c < length (BusConfigs s) \<and> p \<in> set (parent_list (BusConfigs s ! c))}"

text \<open>A bus entry without the working field \<^verbatim>\<open>RevPlay\<close>.\<close>

definition strip :: "BusConfig \<Rightarrow> BusConfig" where
  "strip b = b\<lparr>RevPlay := 0\<rparr>"

text \<open>The buses marked in \<^verbatim>\<open>Checked\<close> and in \<^verbatim>\<open>Visited\<close>, and the parents of a bus.\<close>

definition Chk :: "walk \<Rightarrow> int set" where
  "Chk w = {c. 0 \<le> c \<and> nat c < length (Checked w) \<and> Checked w ! nat c}"

definition Vis :: "walk \<Rightarrow> int set" where
  "Vis w = {c. 0 \<le> c \<and> nat c < length (Visited (bs w)) \<and> Visited (bs w) ! nat c}"

definition par :: "walk \<Rightarrow> int \<Rightarrow> int set" where
  "par w c = (if nat c < length (BusConfigs (bs w))
              then set (parent_list (BusConfigs (bs w) ! nat c)) else {})"

text \<open>
  The invariant of the traversal, with \<open>pend\<close> the buses on the lists still to be read:
  a checked bus is no aux output of the slot, and it has no parents or is visited; the
  parents of a visited bus are checked or pending; the slot's aux inputs are checked or
  pending.
\<close>

definition walk_inv :: "int list \<Rightarrow> int set \<Rightarrow> walk \<Rightarrow> int set \<Rightarrow> bool" where
  "walk_inv outs ins w pend =
     ((\<forall>c \<in> Chk w. c \<notin> set outs \<and> (par w c = {} \<or> c \<in> Vis w)) \<and>
      (\<forall>v \<in> Vis w. par w v \<subseteq> Chk w \<union> pend) \<and>
      ins \<subseteq> Chk w \<union> pend)"

lemma prefix_of_pos: "prefix_of xs n = Some ps \<Longrightarrow> ps = take (nat n) xs"
  by (auto simp: prefix_of_def split: if_splits)

lemma check_entry_strip:
  "check_entry e outs t w = Some (err, w1, q1) \<Longrightarrow>
     map strip (BusConfigs (bs w1)) = map strip (BusConfigs (bs w)) \<and>
     length (Checked w1) = length (Checked w) \<and> length (Visited (bs w1)) = length (Visited (bs w)) \<and>
     AuxToAuxPlayList (bs w1) = AuxToAuxPlayList (bs w) \<and>
     ToAuxPlayList (bs w1) = ToAuxPlayList (bs w) \<and> ToOutPlayList (bs w1) = ToOutPlayList (bs w) \<and>
     Bus_Config_Status (bs w1) = Bus_Config_Status (bs w) \<and>
     Inst_Bus_Config (bs w1) = Inst_Bus_Config (bs w) \<and> err \<in> {NO_ERR, LOOP_ERR}"
  by (auto simp: check_entry_def Let_def strip_def map_update list_update_same_conv
      split: if_splits option.splits)

lemma strip_In_Config: "strip a = strip b \<Longrightarrow> In_Config a = In_Config b"
  by (drule arg_cong[where f = In_Config]) (simp add: strip_def)

lemma strip_par:
  assumes "map strip (BusConfigs (bs w1)) = map strip (BusConfigs (bs w))"
  shows "par w1 = par w"
proof
  fix c
  have l: "length (BusConfigs (bs w1)) = length (BusConfigs (bs w))"
    using arg_cong[OF assms, of length] by simp
  show "par w1 c = par w c"
  proof (cases "nat c < length (BusConfigs (bs w))")
    case True
    have "strip (BusConfigs (bs w1) ! nat c) = strip (BusConfigs (bs w) ! nat c)"
      using arg_cong[OF assms, of "\<lambda>xs. xs ! nat c"] True l by simp
    then have "In_Config (BusConfigs (bs w1) ! nat c) = In_Config (BusConfigs (bs w) ! nat c)"
      by (rule strip_In_Config)
    then show ?thesis using True l by (simp add: par_def parent_list_def)
  next
    case False
    with l show ?thesis by (simp add: par_def)
  qed
qed

lemma check_entry_rng:
  assumes "check_entry e outs t w = Some (err, w1, q1)"
  shows "0 \<le> t" "t < int (busCount e)" "nat t < length (BusConfigs (bs w))"
    "nat t < length (Checked w)" "nat t < length (Visited (bs w))"
  using assms unfolding check_entry_def by (simp_all split: if_splits)

lemma check_entry_out:
  assumes "check_entry e outs t w = Some (NO_ERR, w1, q1)"
  shows "Checked w ! nat t \<or> t \<notin> set outs"
  using assms unfolding check_entry_def Let_def by (auto split: if_splits)

lemma check_entry_checked:
  assumes "check_entry e outs t w = Some (NO_ERR, w1, q1)"
  shows "Checked w1 = (Checked w)[nat t := True]"
  using assms unfolding check_entry_def Let_def by (auto split: if_splits option.splits)

lemma check_entry_node:
  assumes "check_entry e outs t w = Some (NO_ERR, w1, q1)"
  shows "\<exists>node. In_Config (BusConfigs (bs w) ! nat t) = Some node \<and>
            (if bus_count node > 0 \<and> \<not> Visited (bs w) ! nat t
             then q1 = [take (nat (bus_count node)) (bus_list node)] \<and>
                  Visited (bs w1) = (Visited (bs w))[nat t := True]
             else q1 = [] \<and> Visited (bs w1) = Visited (bs w))"
  using assms unfolding check_entry_def Let_def
  by (auto split: if_splits option.splits dest: prefix_of_pos)

lemma mark_set:
  "0 \<le> t \<Longrightarrow> nat t < length xs \<Longrightarrow>
   {c. 0 \<le> c \<and> nat c < length (xs[nat t := True]) \<and> xs[nat t := True] ! nat c} =
   insert t {c. 0 \<le> c \<and> nat c < length xs \<and> xs ! nat c}"
  by (auto simp: nth_list_update)

lemma walk_inv_step:
  assumes inv: "walk_inv outs ins w (insert t pend)"
    and st: "par w1 = par w" and chk: "Chk w1 = insert t (Chk w)"
    and notout: "t \<in> Chk w \<or> t \<notin> set outs"
    and alt: "(Vis w1 = insert t (Vis w) \<and> new = par w t) \<or>
              (Vis w1 = Vis w \<and> new = {} \<and> (par w t = {} \<or> t \<in> Vis w))"
  shows "walk_inv outs ins w1 (pend \<union> new)"
proof -
  from inv have i1: "\<And>c. c \<in> Chk w \<Longrightarrow> c \<notin> set outs \<and> (par w c = {} \<or> c \<in> Vis w)"
    and i2: "\<And>v. v \<in> Vis w \<Longrightarrow> par w v \<subseteq> Chk w \<union> insert t pend"
    and i3: "ins \<subseteq> Chk w \<union> insert t pend"
    unfolding walk_inv_def by blast+
  have tout: "t \<notin> set outs" using notout i1 by blast
  have vsub: "Vis w \<subseteq> Vis w1" using alt by blast
  have tpar: "par w t = {} \<or> t \<in> Vis w1" using alt by blast
  have g1: "c \<notin> set outs \<and> (par w1 c = {} \<or> c \<in> Vis w1)" if "c \<in> Chk w1" for c
  proof (cases "c = t")
    case True
    then show ?thesis using tout tpar st by simp
  next
    case False
    with that chk have "c \<in> Chk w" by simp
    from i1[OF this] vsub show ?thesis unfolding st by blast
  qed
  have g2: "par w1 v \<subseteq> Chk w1 \<union> (pend \<union> new)" if "v \<in> Vis w1" for v
  proof (cases "v \<in> Vis w")
    case True
    from i2[OF this] show ?thesis unfolding st chk by blast
  next
    case False
    with that alt have "v = t" "new = par w t" by auto
    then show ?thesis unfolding st by blast
  qed
  have g3: "ins \<subseteq> Chk w1 \<union> (pend \<union> new)" using i3 unfolding chk by blast
  show ?thesis unfolding walk_inv_def using g1 g2 g3 by blast
qed

lemma check_entry_inv:
  assumes r: "check_entry e outs t w = Some (NO_ERR, w1, q1)"
    and inv: "walk_inv outs ins w (insert t pend)"
  shows "walk_inv outs ins w1 (pend \<union> \<Union> (set (map set q1))) \<and> t \<in> Chk w1 \<and> Chk w \<subseteq> Chk w1"
proof -
  note rng = check_entry_rng[OF r]
  have notout: "t \<in> Chk w \<or> t \<notin> set outs"
    using check_entry_out[OF r] rng(1,4) by (simp add: Chk_def)
  have st: "par w1 = par w" by (rule strip_par) (simp add: check_entry_strip[OF r])
  have chk: "Chk w1 = insert t (Chk w)"
    unfolding Chk_def check_entry_checked[OF r] by (rule mark_set[OF rng(1,4)])
  from check_entry_node[OF r] obtain node
    where node: "In_Config (BusConfigs (bs w) ! nat t) = Some node"
    and br: "if bus_count node > 0 \<and> \<not> Visited (bs w) ! nat t
             then q1 = [take (nat (bus_count node)) (bus_list node)] \<and>
                  Visited (bs w1) = (Visited (bs w))[nat t := True]
             else q1 = [] \<and> Visited (bs w1) = Visited (bs w)" by blast
  have pt: "par w t = set (take (nat (bus_count node)) (bus_list node))"
    using rng(3) node by (simp add: par_def parent_list_def)
  have tv: "t \<in> Vis w \<longleftrightarrow> Visited (bs w) ! nat t" using rng(1,5) by (simp add: Vis_def)
  have alt: "(Vis w1 = insert t (Vis w) \<and> \<Union> (set (map set q1)) = par w t) \<or>
              (Vis w1 = Vis w \<and> \<Union> (set (map set q1)) = {} \<and> (par w t = {} \<or> t \<in> Vis w))"
  proof (cases "bus_count node > 0 \<and> \<not> Visited (bs w) ! nat t")
    case True
    with br have q1: "q1 = [take (nat (bus_count node)) (bus_list node)]"
      and v: "Visited (bs w1) = (Visited (bs w))[nat t := True]" by simp_all
    have "Vis w1 = insert t (Vis w)"
      unfolding Vis_def v by (rule mark_set[OF rng(1,5)])
    moreover have "\<Union> (set (map set q1)) = par w t" by (simp add: q1 pt)
    ultimately show ?thesis by blast
  next
    case False
    with br have q1: "q1 = []" and v: "Visited (bs w1) = Visited (bs w)" by simp_all
    have "Vis w1 = Vis w" by (simp add: Vis_def v)
    moreover have "par w t = {} \<or> t \<in> Vis w" using False pt tv by auto
    moreover have "\<Union> (set (map set q1)) = {}" by (simp add: q1)
    ultimately show ?thesis by blast
  qed
  have a: "t \<in> Chk w1" and b: "Chk w \<subseteq> Chk w1" unfolding chk by blast+
  show ?thesis
    by (intro conjI) (rule walk_inv_step[OF inv st chk notout alt], rule a, rule b)
qed

text \<open>The links of a bus in the graph: its parent list and the flags that go with it.\<close>

definition links :: "BusConfig \<Rightarrow> int list \<times> bool \<times> bool \<times> bool" where
  "links b = (parent_list b, HasChild b, HasParent b, AuxInUse b)"

text \<open>
  One entry per bus, and no parent list allocated before the first check.
\<close>

definition bus_wf :: "engine \<Rightarrow> bus_state \<Rightarrow> bool" where
  "bus_wf e s =
     (length (BusConfigs s) = busCount e \<and>
      (\<not> Bus_Config_Status s \<longrightarrow> (\<forall>b \<in> set (BusConfigs s). In_Config b = None)))"

lemma check_list_NO_ERR:
  assumes "check_list e outs (t # l) w = Some (NO_ERR, w1, q1)"
  shows "\<exists>wa qa qb. check_entry e outs t w = Some (NO_ERR, wa, qa) \<and>
           check_list e outs l wa = Some (NO_ERR, w1, qb) \<and> q1 = qa @ qb"
  using assms by (auto split: option.splits if_splits)

lemma check_list_strip:
  "check_list e outs l w = Some (err, w1, q1) \<Longrightarrow>
     map strip (BusConfigs (bs w1)) = map strip (BusConfigs (bs w)) \<and>
     AuxToAuxPlayList (bs w1) = AuxToAuxPlayList (bs w) \<and>
     ToAuxPlayList (bs w1) = ToAuxPlayList (bs w) \<and> ToOutPlayList (bs w1) = ToOutPlayList (bs w) \<and>
     Bus_Config_Status (bs w1) = Bus_Config_Status (bs w) \<and>
     Inst_Bus_Config (bs w1) = Inst_Bus_Config (bs w) \<and> err \<in> {NO_ERR, LOOP_ERR}"
proof (induction l arbitrary: w err w1 q1)
  case Nil
  then show ?case by simp
next
  case (Cons t l)
  from Cons.prems obtain ea wa qa where a: "check_entry e outs t w = Some (ea, wa, qa)"
    by (auto split: option.splits)
  note fa = check_entry_strip[OF a]
  show ?case
  proof (cases "ea = NO_ERR")
    case False
    with Cons.prems a have "err = ea" "w1 = wa" by auto
    with fa show ?thesis by simp
  next
    case True
    with Cons.prems a obtain qb where b: "check_list e outs l wa = Some (err, w1, qb)"
      by (auto split: option.splits)
    from Cons.IH[OF b] fa show ?thesis by simp
  qed
qed

lemma check_list_inv:
  assumes "check_list e outs l w = Some (NO_ERR, w1, q1)"
    and "walk_inv outs ins w (set l \<union> pend)"
  shows "walk_inv outs ins w1 (pend \<union> \<Union> (set (map set q1))) \<and> set l \<subseteq> Chk w1 \<and> Chk w \<subseteq> Chk w1"
  using assms
proof (induction l arbitrary: w w1 q1 pend)
  case Nil
  then show ?case by simp
next
  case (Cons t l)
  from check_list_NO_ERR[OF Cons.prems(1)] obtain wa qa qb
    where a: "check_entry e outs t w = Some (NO_ERR, wa, qa)"
      and b: "check_list e outs l wa = Some (NO_ERR, w1, qb)" and q: "q1 = qa @ qb" by blast
  from Cons.prems(2) have "walk_inv outs ins w (insert t (set l \<union> pend))" by simp
  from check_entry_inv[OF a this]
  have ia: "walk_inv outs ins wa (set l \<union> pend \<union> \<Union> (set (map set qa)))"
    and ta: "t \<in> Chk wa" and ca: "Chk w \<subseteq> Chk wa" by blast+
  have "set l \<union> pend \<union> \<Union> (set (map set qa)) = set l \<union> (pend \<union> \<Union> (set (map set qa)))"
    by blast
  with ia have "walk_inv outs ins wa (set l \<union> (pend \<union> \<Union> (set (map set qa))))" by simp
  from Cons.IH[OF b this]
  have ib: "walk_inv outs ins w1 (pend \<union> \<Union> (set (map set qa)) \<union> \<Union> (set (map set qb)))"
    and lb: "set l \<subseteq> Chk w1" and cb: "Chk wa \<subseteq> Chk w1" by blast+
  have "pend \<union> \<Union> (set (map set qa)) \<union> \<Union> (set (map set qb)) = pend \<union> \<Union> (set (map set q1))"
    unfolding q by auto
  with ib have "walk_inv outs ins w1 (pend \<union> \<Union> (set (map set q1)))" by simp
  moreover have "set (t # l) \<subseteq> Chk w1" using ta cb lb by auto
  moreover have "Chk w \<subseteq> Chk w1" using ca cb by blast
  ultimately show ?case by blast
qed

lemma check_queue_strip:
  "check_queue e outs q w = Some (err, w1) \<Longrightarrow>
     map strip (BusConfigs (bs w1)) = map strip (BusConfigs (bs w)) \<and>
     AuxToAuxPlayList (bs w1) = AuxToAuxPlayList (bs w) \<and>
     ToAuxPlayList (bs w1) = ToAuxPlayList (bs w) \<and> ToOutPlayList (bs w1) = ToOutPlayList (bs w) \<and>
     Bus_Config_Status (bs w1) = Bus_Config_Status (bs w) \<and>
     Inst_Bus_Config (bs w1) = Inst_Bus_Config (bs w) \<and> err \<in> {NO_ERR, LOOP_ERR}"
proof (induction e outs q w arbitrary: err w1 rule: check_queue.induct)
  case (1 e outs w)
  then show ?case by simp
next
  case (2 e outs l q w)
  from "2.prems" obtain ea wa qa where a: "check_list e outs l w = Some (ea, wa, qa)"
    by (auto split: option.splits)
  note fa = check_list_strip[OF a]
  show ?case
  proof (cases "ea = NO_ERR")
    case False
    with "2.prems" a have "err = ea" "w1 = wa" by auto
    with fa show ?thesis by simp
  next
    case True
    with "2.prems" a have b: "check_queue e outs (q @ qa) wa = Some (err, w1)" by simp
    from "2.IH"[OF a refl refl _ b] True fa show ?thesis by simp
  qed
qed

lemma check_queue_inv:
  assumes "check_queue e outs q w = Some (NO_ERR, w1)"
    and "walk_inv outs ins w (\<Union> (set (map set q)))"
  shows "walk_inv outs ins w1 {}"
  using assms
proof (induction e outs q w arbitrary: w1 rule: check_queue.induct)
  case (1 e outs w)
  then show ?case by simp
next
  case (2 e outs l q w)
  from "2.prems"(1) obtain ea wa qa where a: "check_list e outs l w = Some (ea, wa, qa)"
    by (auto split: option.splits)
  have ea: "ea = NO_ERR"
  proof (rule ccontr)
    assume "ea \<noteq> NO_ERR"
    with "2.prems"(1) a show False by simp
  qed
  with "2.prems"(1) a have b: "check_queue e outs (q @ qa) wa = Some (NO_ERR, w1)" by simp
  have "\<Union> (set (map set (l # q))) = set l \<union> \<Union> (set (map set q))" by simp
  with "2.prems"(2) have "walk_inv outs ins w (set l \<union> \<Union> (set (map set q)))" by simp
  from check_list_inv[OF a[unfolded ea] this]
  have "walk_inv outs ins wa (\<Union> (set (map set q)) \<union> \<Union> (set (map set qa)))" by blast
  moreover have "\<Union> (set (map set q)) \<union> \<Union> (set (map set qa)) = \<Union> (set (map set (q @ qa)))"
    by auto
  ultimately have "walk_inv outs ins wa (\<Union> (set (map set (q @ qa))))" by simp
  from "2.IH"[OF a refl refl _ b this] ea show ?case by simp
qed

lemma walk_closed:
  assumes inv: "walk_inv outs ins w {}" and a: "a \<in> ins"
    and path: "(anc, a) \<in> {(p, c). p \<in> par w c}\<^sup>*"
  shows "anc \<in> Chk w \<and> anc \<notin> set outs"
proof -
  from inv have i1: "\<And>c. c \<in> Chk w \<Longrightarrow> c \<notin> set outs \<and> (par w c = {} \<or> c \<in> Vis w)"
    and i2: "\<And>v. v \<in> Vis w \<Longrightarrow> par w v \<subseteq> Chk w"
    and i3: "ins \<subseteq> Chk w"
    unfolding walk_inv_def by blast+
  from path have "anc \<in> Chk w"
  proof (induction rule: converse_rtrancl_induct)
    case base
    then show ?case using a i3 by blast
  next
    case (step y z)
    then have "y \<in> par w z" "z \<in> Chk w" by simp_all
    with i1[of z] i2[of z] show ?case by blast
  qed
  with i1 show ?thesis by blast
qed

lemma parent_rel_par: "(p, c) \<in> parent_rel (bs w) \<Longrightarrow> p \<in> par w c"
  by (auto simp: parent_rel_def par_def)

lemma parent_rel_cong:
  assumes "map parent_list (BusConfigs s') = map parent_list (BusConfigs s)"
  shows "parent_rel s' = parent_rel s"
proof -
  have l: "length (BusConfigs s') = length (BusConfigs s)"
    using arg_cong[OF assms, of length] by simp
  have "parent_list (BusConfigs s' ! c) = parent_list (BusConfigs s ! c)" if "c < length (BusConfigs s)" for c
    using arg_cong[OF assms, of "\<lambda>xs. xs ! c"] that l by simp
  then show ?thesis unfolding parent_rel_def l by auto
qed

lemma strip_links: "strip a = strip b \<Longrightarrow> links a = links b"
proof -
  assume h: "strip a = strip b"
  have "In_Config a = In_Config b" using arg_cong[OF h, of In_Config] by (simp add: strip_def)
  moreover have "HasChild a = HasChild b" using arg_cong[OF h, of HasChild] by (simp add: strip_def)
  moreover have "HasParent a = HasParent b" using arg_cong[OF h, of HasParent] by (simp add: strip_def)
  moreover have "AuxInUse a = AuxInUse b" using arg_cong[OF h, of AuxInUse] by (simp add: strip_def)
  moreover have "AuxOutInUse a = AuxOutInUse b" using arg_cong[OF h, of AuxOutInUse] by (simp add: strip_def)
  moreover have "OutInUse a = OutInUse b" using arg_cong[OF h, of OutInUse] by (simp add: strip_def)
  ultimately show ?thesis by (simp add: links_def parent_list_def)
qed

lemma map_strip_links:
  assumes "map strip xs = map strip ys"
  shows "map links xs = map links ys"
proof -
  have "map (links \<circ> strip) xs = map (links \<circ> strip) ys"
    using arg_cong[OF assms, of "map links"] by simp
  moreover have "links \<circ> strip = links"
    by (rule ext) (simp add: links_def strip_def parent_list_def)
  ultimately show ?thesis by simp
qed

lemma map_strip_In_Config:
  assumes "map strip xs = map strip ys"
  shows "map In_Config xs = map In_Config ys"
proof -
  have "map (In_Config \<circ> strip) xs = map (In_Config \<circ> strip) ys"
    using arg_cong[OF assms, of "map In_Config"] by simp
  moreover have "In_Config \<circ> strip = In_Config"
    by (rule ext) (simp add: strip_def)
  ultimately show ?thesis by simp
qed

lemma links_parent_list: "map links xs = map links ys \<Longrightarrow> map parent_list xs = map parent_list ys"
proof -
  assume h: "map links xs = map links ys"
  have "map (fst \<circ> links) xs = map (fst \<circ> links) ys"
    using arg_cong[OF h, of "map fst"] by simp
  moreover have "fst \<circ> links = parent_list" by (rule ext) (simp add: links_def)
  ultimately show ?thesis by simp
qed

lemma alloc_links:
  assumes "bus_wf e s"
  shows "map links (BusConfigs (alloc_in_config e s)) = map links (BusConfigs s)"
proof (cases "Bus_Config_Status s")
  case True
  then show ?thesis by (simp add: alloc_in_config_def)
next
  case False
  with assms have n: "\<And>b. b \<in> set (BusConfigs s) \<Longrightarrow> In_Config b = None" by (simp add: bus_wf_def)
  have "links (b\<lparr>In_Config := Some \<lparr>bus_list = replicate (busCount e) 0, bus_count = 0\<rparr>\<rparr>) = links b"
    if "b \<in> set (BusConfigs s)" for b
    using n[OF that] by (simp add: links_def parent_list_def)
  then show ?thesis using False by (simp add: alloc_in_config_def)
qed

lemma alloc_frame:
  "Bus_Config_Status (alloc_in_config e s)"
  "Inst_Bus_Config (alloc_in_config e s) = Inst_Bus_Config s"
  "AuxToAuxPlayList (alloc_in_config e s) = AuxToAuxPlayList s"
  by (simp_all add: alloc_in_config_def)

lemma reset_links:
  "map links (BusConfigs (reset_for_check e v s)) = map links (BusConfigs s)"
  "Bus_Config_Status (reset_for_check e v s) = Bus_Config_Status s"
  "Inst_Bus_Config (reset_for_check e v s) = Inst_Bus_Config s"
  "AuxToAuxPlayList (reset_for_check e v s) = AuxToAuxPlayList s"
  "Visited (reset_for_check e True s) = overwrite_front (replicate (busCount e) False) (Visited s)"
  by (simp_all add: reset_for_check_def Let_def links_def parent_list_def o_def)

lemma bus_wf_links:
  assumes "map links (BusConfigs s') = map links (BusConfigs s)" "Bus_Config_Status s'" "bus_wf e s"
  shows "bus_wf e s'"
  using map_eq_imp_length_eq[OF assms(1)] assms(2,3) by (simp add: bus_wf_def)

lemma links_parent_rel:
  "map links (BusConfigs s') = map links (BusConfigs s) \<Longrightarrow> parent_rel s' = parent_rel s"
  by (rule parent_rel_cong) (rule links_parent_list)

lemma check_frame:
  assumes r: "check_bus_inst_config e slot visit s = Some (err, s')" and wf: "bus_wf e s"
  shows "map links (BusConfigs s') = map links (BusConfigs s) \<and> Bus_Config_Status s' \<and>
         Inst_Bus_Config s' = Inst_Bus_Config s \<and> AuxToAuxPlayList s' = AuxToAuxPlayList s \<and>
         err \<in> {NO_ERR, LOOP_ERR}"
proof -
  let ?s1 = "reset_for_check e visit (alloc_in_config e s)"
  let ?w0 = "\<lparr>bs = ?s1, Checked = replicate (MAXBUS e) False, r_p_count = 0\<rparr>"
  have f1: "map links (BusConfigs ?s1) = map links (BusConfigs s)" "Bus_Config_Status ?s1"
    "Inst_Bus_Config ?s1 = Inst_Bus_Config s" "AuxToAuxPlayList ?s1 = AuxToAuxPlayList s"
    using alloc_links[OF wf] by (simp_all add: reset_links alloc_frame)
  from r have "(err = NO_ERR \<and> s' = ?s1) \<or>
      (\<exists>outs ins w1. check_queue e outs [ins] ?w0 = Some (err, w1) \<and> s' = bs w1)"
    unfolding check_bus_inst_config_def Let_def
    by (auto simp del: check_queue.simps split: option.splits if_splits)
  then show ?thesis
  proof
    assume "err = NO_ERR \<and> s' = ?s1"
    with f1 show ?thesis by simp
  next
    assume "\<exists>outs ins w1. check_queue e outs [ins] ?w0 = Some (err, w1) \<and> s' = bs w1"
    then obtain outs ins w1 where q: "check_queue e outs [ins] ?w0 = Some (err, w1)"
      and s': "s' = bs w1" by blast
    note fq = check_queue_strip[OF q]
    from fq have "map strip (BusConfigs (bs w1)) = map strip (BusConfigs ?s1)" by simp
    from map_strip_links[OF this] f1(1)
    have "map links (BusConfigs (bs w1)) = map links (BusConfigs s)" by simp
    moreover from fq f1 have "Bus_Config_Status (bs w1)" "Inst_Bus_Config (bs w1) = Inst_Bus_Config s"
      "AuxToAuxPlayList (bs w1) = AuxToAuxPlayList s" "err \<in> {NO_ERR, LOOP_ERR}" by simp_all
    ultimately show ?thesis unfolding s' by blast
  qed
qed

lemma check_sound:
  assumes r: "check_bus_inst_config e slot True s = Some (NO_ERR, s')" and wf: "bus_wf e s"
    and ins: "prefix_of (auxin slot) (auxin_count slot) = Some ins"
    and outs: "prefix_of (auxout slot) (auxout_count slot) = Some outs"
    and a: "a \<in> set ins" and o: "anc \<in> set outs"
  shows "(anc, a) \<notin> (parent_rel s)\<^sup>*"
proof
  assume path: "(anc, a) \<in> (parent_rel s)\<^sup>*"
  let ?s1 = "reset_for_check e True (alloc_in_config e s)"
  let ?w0 = "\<lparr>bs = ?s1, Checked = replicate (MAXBUS e) False, r_p_count = 0\<rparr>"
  from a have ne: "ins \<noteq> []" by auto
  from r ins outs ne obtain w1 where q: "check_queue e outs [ins] ?w0 = Some (NO_ERR, w1)"
    and s': "s' = bs w1"
    unfolding check_bus_inst_config_def Let_def by (auto simp del: check_queue.simps)
  have l1: "map links (BusConfigs ?s1) = map links (BusConfigs s)"
    using alloc_links[OF wf] by (simp add: reset_links)
  have len: "length (BusConfigs ?s1) = busCount e"
    using map_eq_imp_length_eq[OF l1] wf by (simp add: bus_wf_def)
  have chk0: "Chk ?w0 = {}" by (auto simp: Chk_def)
  have vis0: "par ?w0 v = {}" if "v \<in> Vis ?w0" for v
  proof -
    from that have v: "Visited ?s1 ! nat v" by (simp add: Vis_def)
    have "\<not> nat v < busCount e"
    proof
      assume "nat v < busCount e"
      then have "\<not> Visited ?s1 ! nat v" by (simp add: reset_links(5) overwrite_front_def nth_append)
      with v show False by simp
    qed
    then show ?thesis using len by (simp add: par_def)
  qed
  have "walk_inv outs (set ins) ?w0 (\<Union> (set (map set [ins])))"
    unfolding walk_inv_def using chk0 vis0 by auto
  from check_queue_inv[OF q this] have fin: "walk_inv outs (set ins) w1 {}" .
  from check_queue_strip[OF q]
  have "map strip (BusConfigs (bs w1)) = map strip (BusConfigs ?s1)" by simp
  from map_strip_links[OF this] l1
  have "map links (BusConfigs (bs w1)) = map links (BusConfigs s)" by simp
  from links_parent_rel[OF this] have eq: "parent_rel (bs w1) = parent_rel s" .
  have sub: "parent_rel s \<subseteq> {(p, c). p \<in> par w1 c}"
    unfolding eq[symmetric] using parent_rel_par by auto
  from path rtrancl_mono[OF sub] have "(anc, a) \<in> {(p, c). p \<in> par w1 c}\<^sup>*" by blast
  from walk_closed[OF fin a this] o show False by blast
qed

subsection \<open>The edges an insertion adds\<close>

lemma take_push_eq:
  assumes "0 \<le> k" "k < int (length xs)"
  shows "take (nat (k + 1)) (xs[nat k := v]) = take (nat k) xs @ [v]"
proof -
  have "nat (k + 1) = Suc (nat k)" using assms(1) by simp
  moreover have "nat k < length xs" using assms by simp
  ultimately show ?thesis by (simp add: take_Suc_conv_app_nth)
qed

lemma parent_rel_update:
  assumes len: "length (BusConfigs s') = length (BusConfigs s)"
    and so: "0 \<le> so"
    and other: "\<And>c. c < length (BusConfigs s) \<Longrightarrow> c \<noteq> nat so \<Longrightarrow>
                  parent_list (BusConfigs s' ! c) = parent_list (BusConfigs s ! c)"
    and at: "set (parent_list (BusConfigs s' ! nat so)) \<subseteq> insert si (set (parent_list (BusConfigs s ! nat so)))"
  shows "parent_rel s' \<subseteq> parent_rel s \<union> {(si, so)}"
proof
  fix x assume "x \<in> parent_rel s'"
  then obtain p c where x: "x = (p, int c)" and c: "c < length (BusConfigs s)"
    and p: "p \<in> set (parent_list (BusConfigs s' ! c))" unfolding parent_rel_def len by blast
  show "x \<in> parent_rel s \<union> {(si, so)}"
  proof (cases "c = nat so")
    case True
    with p at have "p = si \<or> p \<in> set (parent_list (BusConfigs s ! c))" by auto
    with True so c x show ?thesis by (auto simp: parent_rel_def)
  next
    case False
    with other[OF c] p c x show ?thesis by (auto simp: parent_rel_def)
  qed
qed

lemma insert_edge_cases:
  assumes "insert_edge e so si s = Some s'"
  shows "0 \<le> so \<and> length (BusConfigs s') = length (BusConfigs s) \<and>
         Bus_Config_Status s' = Bus_Config_Status s \<and>
         (\<forall>c < length (BusConfigs s). c \<noteq> nat so \<longrightarrow>
             parent_list (BusConfigs s' ! c) = parent_list (BusConfigs s ! c)) \<and>
         set (parent_list (BusConfigs s' ! nat so)) \<subseteq> insert si (set (parent_list (BusConfigs s ! nat so)))"
  using assms unfolding insert_edge_def Let_def aread_def awrite_def
  by (auto simp: nth_list_update parent_list_def take_push_eq split: option.splits if_splits)

lemma insert_edge_rel:
  assumes "insert_edge e so si s = Some s'"
  shows "parent_rel s' \<subseteq> parent_rel s \<union> {(si, so)} \<and> length (BusConfigs s') = length (BusConfigs s) \<and>
         Bus_Config_Status s' = Bus_Config_Status s"
proof -
  note c = insert_edge_cases[OF assms]
  have "parent_rel s' \<subseteq> parent_rel s \<union> {(si, so)}"
    by (rule parent_rel_update) (use c in simp_all)
  with c show ?thesis by simp
qed

lemma insert_edges_rel:
  "insert_edges e so ins s = Some s' \<Longrightarrow>
     parent_rel s' \<subseteq> parent_rel s \<union> set ins \<times> {so} \<and> length (BusConfigs s') = length (BusConfigs s) \<and>
     Bus_Config_Status s' = Bus_Config_Status s"
proof (induction ins arbitrary: s)
  case Nil
  then show ?case by simp
next
  case (Cons si ins)
  from Cons.prems obtain s1 where a: "insert_edge e so si s = Some s1"
    and b: "insert_edges e so ins s1 = Some s'" by (auto split: option.splits)
  from insert_edge_rel[OF a] Cons.IH[OF b] show ?case by auto
qed

lemma insert_out_rel:
  assumes "insert_out e ins so s = Some s'"
  shows "parent_rel s' \<subseteq> parent_rel s \<union> set ins \<times> {so} \<and> length (BusConfigs s') = length (BusConfigs s) \<and>
         Bus_Config_Status s' = Bus_Config_Status s"
proof -
  from assms obtain outbus where ob: "aread (BusConfigs s) so = Some outbus"
    and r: "insert_edges e so ins (s\<lparr>BusConfigs := (BusConfigs s)[nat so := outbus\<lparr>AuxInUse := True\<rparr>]\<rparr>) = Some s'"
    by (auto simp: insert_out_def split: option.splits)
  let ?s0 = "s\<lparr>BusConfigs := (BusConfigs s)[nat so := outbus\<lparr>AuxInUse := True\<rparr>]\<rparr>"
  from ob have rng: "nat so < length (BusConfigs s)" and obd: "outbus = BusConfigs s ! nat so"
    by (auto simp: aread_def split: if_splits)
  have "map parent_list (BusConfigs ?s0) = map parent_list (BusConfigs s)"
    using rng obd by (simp add: map_update parent_list_def list_update_same_conv)
  from parent_rel_cong[OF this] have "parent_rel ?s0 = parent_rel s" .
  with insert_edges_rel[OF r] show ?thesis by simp
qed

lemma insert_outs_rel:
  "insert_outs e ins outs s = Some s' \<Longrightarrow>
     parent_rel s' \<subseteq> parent_rel s \<union> set ins \<times> set outs \<and> length (BusConfigs s') = length (BusConfigs s) \<and>
     Bus_Config_Status s' = Bus_Config_Status s"
proof (induction outs arbitrary: s)
  case Nil
  then show ?case by simp
next
  case (Cons so outs)
  from Cons.prems obtain s1 where a: "insert_out e ins so s = Some s1"
    and b: "insert_outs e ins outs s1 = Some s'" by (auto split: option.splits)
  from insert_out_rel[OF a] Cons.IH[OF b] show ?case by auto
qed

lemma parent_rel_BusConfigs: "BusConfigs s' = BusConfigs s \<Longrightarrow> parent_rel s' = parent_rel s"
  by (simp add: parent_rel_def)

lemma insert_bus_slot_rel:
  assumes "insert_bus_slot e name slot s = Some s'"
  shows "\<exists>ins outs. prefix_of (auxout slot) (auxout_count slot) = Some outs \<and>
           (outs = [] \<or> prefix_of (auxin slot) (auxin_count slot) = Some ins) \<and>
           parent_rel s' \<subseteq> parent_rel s \<union> (if outs = [] then {} else set ins \<times> set outs) \<and>
           length (BusConfigs s') = length (BusConfigs s) \<and>
           Bus_Config_Status s' = Bus_Config_Status s"
proof -
  from assms obtain outs where o: "prefix_of (auxout slot) (auxout_count slot) = Some outs"
    by (auto simp: insert_bus_slot_def split: option.splits)
  show ?thesis
  proof (cases "outs = []")
    case True
    with assms o have "BusConfigs s' = BusConfigs s" "Bus_Config_Status s' = Bus_Config_Status s"
      by (auto simp: insert_bus_slot_def)
    with o True parent_rel_BusConfigs[of s' s] show ?thesis by simp
  next
    case False
    with assms o obtain ins s1 where i: "prefix_of (auxin slot) (auxin_count slot) = Some ins"
      and r: "insert_outs e ins outs s = Some s1"
      and s': "s' = s1\<lparr>Inst_Bus_Config := insert_queue name slot (Inst_Bus_Config s1)\<rparr>"
      by (auto simp: insert_bus_slot_def split: option.splits)
    have "parent_rel s' = parent_rel s1" by (rule parent_rel_BusConfigs) (simp add: s')
    with insert_outs_rel[OF r] o i False s' show ?thesis by auto
  qed
qed

subsection \<open>Adding edges to an acyclic relation\<close>

lemma stays_below:
  assumes no: "\<forall>a \<in> A. \<forall>anc \<in> B. (anc, a) \<notin> R\<^sup>*"
    and path: "(u, z) \<in> (R \<union> A \<times> B)\<^sup>*" and u: "\<exists>anc \<in> B. (anc, u) \<in> R\<^sup>*"
  shows "(u, z) \<in> R\<^sup>* \<and> (\<exists>anc \<in> B. (anc, z) \<in> R\<^sup>*)"
  using path
proof (induction rule: rtrancl_induct)
  case base
  then show ?case using u by simp
next
  case (step y z)
  from step.IH obtain anc where anc: "anc \<in> B" "(anc, y) \<in> R\<^sup>*" and uy: "(u, y) \<in> R\<^sup>*" by blast
  from step.hyps(2) show ?case
  proof
    assume yz: "(y, z) \<in> R"
    with uy anc show ?thesis by (meson rtrancl.rtrancl_into_rtrancl)
  next
    assume "(y, z) \<in> A \<times> B"
    then have "y \<in> A" by simp
    with no anc show ?thesis by blast
  qed
qed

lemma trancl_union_split:
  assumes "(x, y) \<in> (R \<union> S)\<^sup>+"
  shows "(x, y) \<in> R\<^sup>+ \<or> (\<exists>a b. (x, a) \<in> (R \<union> S)\<^sup>* \<and> (a, b) \<in> S \<and> (b, y) \<in> (R \<union> S)\<^sup>*)"
  using assms
proof (induction rule: trancl_induct)
  case (base y)
  then show ?case by auto
next
  case (step y z)
  from step.hyps(2) show ?case
  proof
    assume yz: "(y, z) \<in> R"
    from step.IH show ?thesis
    proof
      assume "(x, y) \<in> R\<^sup>+"
      with yz show ?thesis by (meson trancl.trancl_into_trancl)
    next
      assume "\<exists>a b. (x, a) \<in> (R \<union> S)\<^sup>* \<and> (a, b) \<in> S \<and> (b, y) \<in> (R \<union> S)\<^sup>*"
      then obtain a b where ab: "(x, a) \<in> (R \<union> S)\<^sup>*" "(a, b) \<in> S" "(b, y) \<in> (R \<union> S)\<^sup>*" by blast
      from yz have "(y, z) \<in> R \<union> S" by simp
      with ab(3) have "(b, z) \<in> (R \<union> S)\<^sup>*" by (rule rtrancl.rtrancl_into_rtrancl)
      with ab show ?thesis by blast
    qed
  next
    assume yz: "(y, z) \<in> S"
    from step.hyps(1) have "(x, y) \<in> (R \<union> S)\<^sup>*" by (rule trancl_into_rtrancl)
    with yz show ?thesis by blast
  qed
qed

lemma acyclic_add_edges:
  assumes ac: "acyclic R" and no: "\<forall>a \<in> A. \<forall>anc \<in> B. (anc, a) \<notin> R\<^sup>*"
  shows "acyclic (R \<union> A \<times> B)"
proof (rule acyclicI, rule allI, rule notI)
  fix x assume "(x, x) \<in> (R \<union> A \<times> B)\<^sup>+"
  from trancl_union_split[OF this] show False
  proof
    assume "(x, x) \<in> R\<^sup>+"
    with ac show False by (simp add: acyclic_def)
  next
    assume "\<exists>a b. (x, a) \<in> (R \<union> A \<times> B)\<^sup>* \<and> (a, b) \<in> A \<times> B \<and> (b, x) \<in> (R \<union> A \<times> B)\<^sup>*"
    then obtain a b where xa: "(x, a) \<in> (R \<union> A \<times> B)\<^sup>*" and ab: "a \<in> A" "b \<in> B"
      and bx: "(b, x) \<in> (R \<union> A \<times> B)\<^sup>*" by blast
    from bx xa have "(b, a) \<in> (R \<union> A \<times> B)\<^sup>*" by (rule rtrancl_trans)
    moreover have "\<exists>anc \<in> B. (anc, b) \<in> R\<^sup>*" using ab(2) by blast
    ultimately have "(b, a) \<in> R\<^sup>*" using stays_below[OF no] by blast
    with no ab show False by blast
  qed
qed

subsection \<open>Sequences of calls\<close>

text \<open>
  A sequence of calls of \<^verbatim>\<open>bus_config\<close>, each from the state the one before has left,
  whether it returned or left through \<^verbatim>\<open>RTExit\<close>.
\<close>

fun bus_configs :: "engine \<Rightarrow> (string \<times> string option list) list \<Rightarrow> bus_state \<Rightarrow> bus_state option" where
  "bus_configs e [] s = Some s"
| "bus_configs e ((name, busnames) # calls) s =
     (case bus_config e name busnames s of
        None \<Rightarrow> None
      | Some (Returned s1) \<Rightarrow> bus_configs e calls s1
      | Some (Exited code s1) \<Rightarrow> bus_configs e calls s1)"

text \<open>The same, when every call returns.\<close>

fun returns_all :: "engine \<Rightarrow> (string \<times> string option list) list \<Rightarrow> bus_state \<Rightarrow> bus_state option" where
  "returns_all e [] s = Some s"
| "returns_all e ((name, busnames) # calls) s =
     (case bus_config e name busnames s of
        Some (Returned s1) \<Rightarrow> returns_all e calls s1
      | _ \<Rightarrow> None)"

text \<open>An engine with four buses, and some calls on it.\<close>

definition e4 :: engine where
  "e4 = \<lparr>busCount = 4, NCHANS = 2, MAXBUS = 8, rtsetparams_was_called = True\<rparr>"

definition diamond :: "(string \<times> string option list) list" where
  "diamond =
     [(''A'', [Some ''aux 0 in'', Some ''aux 1 out'']),
      (''B'', [Some ''aux 1 in'', Some ''aux 3 out'']),
      (''C'', [Some ''aux 1 in'', Some ''aux 2 out'']),
      (''D'', [Some ''aux 2 in'', Some ''aux 3 out''])]"

text \<open>
  Four times the call \<^verbatim>\<open>A\<close> from aux 0 to aux 1, then the call \<^verbatim>\<open>B\<close> from aux 1 to aux 0.
\<close>

definition wrap_calls :: "(string \<times> string option list) list" where
  "wrap_calls =
     [(''A'', [Some ''aux 0 in'', Some ''aux 1 out'']),
      (''A'', [Some ''aux 0 in'', Some ''aux 1 out'']),
      (''A'', [Some ''aux 0 in'', Some ''aux 1 out'']),
      (''A'', [Some ''aux 0 in'', Some ''aux 1 out'']),
      (''B'', [Some ''aux 1 in'', Some ''aux 0 out''])]"

text \<open>
  The routing the instrument queue records: for each instrument, the aux inputs and the
  aux outputs of each slot of its chain.
\<close>

definition routes ::
  "bus_state \<Rightarrow> (string \<times> (int list option \<times> int list option) list) list" where
  "routes s =
     map (\<lambda>(name, chain).
            (name, map (\<lambda>sl. (prefix_of (auxin sl) (auxin_count sl),
                               prefix_of (auxout sl) (auxout_count sl))) chain))
         (Inst_Bus_Config s)"

text \<open>How a call ended and the parent lists it left, as the traversal reads them.\<close>

definition ending :: "bus_result option \<Rightarrow> (bool \<times> ErrCode \<times> int list option list) option" where
  "ending r =
     map_option
       (\<lambda>x. case x of
               Returned s \<Rightarrow> (True, NO_ERR, map parents_of (BusConfigs s))
             | Exited code s \<Rightarrow> (False, code, map parents_of (BusConfigs s))) r"

text \<open>Two states with the same links, parent lists, queue and aux play list.\<close>

definition same_graph :: "bus_state \<Rightarrow> bus_state \<Rightarrow> bool" where
  "same_graph s' s =
     (map links (BusConfigs s') = map links (BusConfigs s) \<and>
      map In_Config (BusConfigs s') = map In_Config (BusConfigs s) \<and>
      Bus_Config_Status s' = Bus_Config_Status s \<and>
      Inst_Bus_Config s' = Inst_Bus_Config s \<and>
      AuxToAuxPlayList s' = AuxToAuxPlayList s)"

lemma same_graph_refl: "same_graph s s"
  by (simp add: same_graph_def)

lemma same_graph_trans: "same_graph a b \<Longrightarrow> same_graph b c \<Longrightarrow> same_graph a c"
  by (simp add: same_graph_def)

lemma mark_range_frame:
  assumes f: "\<And>b. links (f b) = links b" "\<And>b. In_Config (f b) = In_Config b"
  shows "mark_range f ks cfgs = Some cfgs' \<Longrightarrow>
           map links cfgs' = map links cfgs \<and> map In_Config cfgs' = map In_Config cfgs"
proof (induction ks arbitrary: cfgs)
  case Nil
  then show ?case by simp
next
  case (Cons k ks)
  from Cons.prems obtain b where b: "aread cfgs k = Some b"
    and r: "mark_range f ks (cfgs[nat k := f b]) = Some cfgs'" by (auto split: option.splits)
  from b have rng: "nat k < length cfgs" and bd: "b = cfgs ! nat k"
    by (auto simp: aread_def split: if_splits)
  have "map links (cfgs[nat k := f b]) = map links cfgs"
    using rng bd f(1) by (simp add: map_update list_update_same_conv)
  moreover have "map In_Config (cfgs[nat k := f b]) = map In_Config cfgs"
    using rng bd f(2) by (simp add: map_update list_update_same_conv)
  ultimately show ?case using Cons.IH[OF r] by simp
qed

lemma config_one_frame:
  assumes "config_one e nm b = Some (Inr b')"
  shows "same_graph (bst b') (bst b)"
proof -
  have m1: "mark_range (\<lambda>c. c\<lparr>OutInUse := True\<rparr>) ks cfgs = Some cfgs' \<Longrightarrow>
      map links cfgs' = map links cfgs \<and> map In_Config cfgs' = map In_Config cfgs" for ks cfgs cfgs'
    by (rule mark_range_frame) (simp_all add: links_def parent_list_def)
  have m2: "mark_range (\<lambda>c. c\<lparr>AuxOutInUse := True\<rparr>) ks cfgs = Some cfgs' \<Longrightarrow>
      map links cfgs' = map links cfgs \<and> map In_Config cfgs' = map In_Config cfgs" for ks cfgs cfgs'
    by (rule mark_range_frame) (simp_all add: links_def parent_list_def)
  show ?thesis using assms unfolding config_one_def Let_def same_graph_def
    by (auto split: option.splits sum.splits prod.splits BusType.splits if_splits dest!: m1 m2)
qed

lemma config_all_frame:
  "config_all e nms b = Some r \<Longrightarrow>
     (case r of Inl (c, s') \<Rightarrow> same_graph s' (bst b) | Inr b' \<Rightarrow> same_graph (bst b') (bst b))"
proof (induction nms arbitrary: b)
  case Nil
  then show ?case by (auto simp: same_graph_refl)
next
  case (Cons nm nms)
  show ?case
  proof (cases "config_one e nm b")
    case None
    with Cons.prems show ?thesis by simp
  next
    case (Some x)
    show ?thesis
    proof (cases x)
      case (Inl c)
      with Some Cons.prems have "r = Inl (c, bst b)" by simp
      then show ?thesis by (simp add: same_graph_refl)
    next
      case (Inr b1)
      with Some Cons.prems have "config_all e nms b1 = Some r" by simp
      from Cons.IH[OF this] config_one_frame[OF Some[unfolded Inr]] show ?thesis
        by (auto split: sum.splits prod.splits intro: same_graph_trans)
    qed
  qed
qed

lemma same_graph_wf:
  assumes "same_graph s' s" "bus_wf e s"
  shows "bus_wf e s'"
proof -
  from assms(1) have m: "map In_Config (BusConfigs s') = map In_Config (BusConfigs s)"
    and st: "Bus_Config_Status s' = Bus_Config_Status s" by (simp_all add: same_graph_def)
  have len: "length (BusConfigs s') = length (BusConfigs s)" using map_eq_imp_length_eq[OF m] .
  have "In_Config b = None" if "b \<in> set (BusConfigs s')" "\<not> Bus_Config_Status s" for b
  proof -
    from that(1) have "In_Config b \<in> set (map In_Config (BusConfigs s'))" by simp
    then have "In_Config b \<in> set (map In_Config (BusConfigs s))" unfolding m .
    then obtain b0 where "b0 \<in> set (BusConfigs s)" "In_Config b = In_Config b0" by auto
    with assms(2) that(2) show ?thesis by (simp add: bus_wf_def)
  qed
  with len st assms(2) show ?thesis by (simp add: bus_wf_def)
qed

lemma bf_traverse_frame:
  assumes "bf_traverse e bus v s = Some s'" "bus_wf e s"
  shows "map links (BusConfigs s') = map links (BusConfigs s) \<and> bus_wf e s'"
proof -
  from assms(1) obtain slot err where "check_bus_inst_config e slot v s = Some (err, s')"
    unfolding bf_traverse_def Let_def by (auto split: option.splits)
  from check_frame[OF this assms(2)] bus_wf_links[OF _ _ assms(2)] show ?thesis by blast
qed

lemma play_leaves_frame:
  "play_leaves e js v k s = Some s' \<Longrightarrow> bus_wf e s \<Longrightarrow>
     map links (BusConfigs s') = map links (BusConfigs s) \<and> bus_wf e s'"
proof (induction js arbitrary: v k s)
  case Nil
  then show ?case by simp
next
  case (Cons i js)
  show ?case
  proof (cases "AuxInUse (BusConfigs s ! i) \<and> \<not> HasChild (BusConfigs s ! i)")
    case False
    with Cons.prems(1) have "play_leaves e js v k s = Some s'" by auto
    from Cons.IH[OF this Cons.prems(2)] show ?thesis .
  next
    case True
    with Cons.prems(1) obtain s1 pl k1 where a: "bf_traverse e (int i) v s = Some s1"
      and b: "play_leaves e js False k1 (s1\<lparr>AuxToAuxPlayList := pl\<rparr>) = Some s'"
      by (auto split: option.splits prod.splits)
    from bf_traverse_frame[OF a Cons.prems(2)]
    have l: "map links (BusConfigs s1) = map links (BusConfigs s)" and w: "bus_wf e s1" by blast+
    from w have "bus_wf e (s1\<lparr>AuxToAuxPlayList := pl\<rparr>)" by (simp add: bus_wf_def)
    from Cons.IH[OF b this] l show ?thesis by simp
  qed
qed

lemma create_play_order_frame:
  assumes "create_play_order e s = Some s'" "bus_wf e s"
  shows "map links (BusConfigs s') = map links (BusConfigs s) \<and> bus_wf e s'"
proof -
  from assms(1) obtain pl k where
    b: "play_leaves e [0..<busCount e] True k (s\<lparr>AuxToAuxPlayList := pl\<rparr>) = Some s'"
    unfolding create_play_order_def by (auto split: option.splits prod.splits)
  from assms(2) have "bus_wf e (s\<lparr>AuxToAuxPlayList := pl\<rparr>)" by (simp add: bus_wf_def)
  from play_leaves_frame[OF b this] show ?thesis by simp
qed

lemma bus_config_returned:
  assumes r: "bus_config e name args s = Some (Returned s')" and wf: "bus_wf e s"
    and ac: "acyclic (parent_rel s)"
  shows "bus_wf e s' \<and> acyclic (parent_rel s')"
proof -
  let ?b0 = "\<lparr>bus_slot = new_BusSlot (busCount e), chain_incount = 0, chain_outcount = 0, bst = s\<rparr>"
  from r obtain b s1 s2 where cfg: "config_all e args ?b0 = Some (Inr b)"
    and chk: "check_bus_inst_config e (bus_slot b) True (bst b) = Some (NO_ERR, s1)"
    and ins: "insert_bus_slot e name (bus_slot b) s1 = Some s2"
    and cpo: "create_play_order e
                (s2\<lparr>Inst_Bus_Config :=
                      bump_counts name (chain_incount b) (chain_outcount b) (Inst_Bus_Config s2)\<rparr>) = Some s'"
    unfolding bus_config_def by (auto split: option.splits sum.splits prod.splits if_splits)
  from config_all_frame[OF cfg] have sg: "same_graph (bst b) s" by simp
  note wfb = same_graph_wf[OF sg wf]
  from sg have lb: "map links (BusConfigs (bst b)) = map links (BusConfigs s)"
    by (simp add: same_graph_def)
  note relb = links_parent_rel[OF lb]
  note cf = check_frame[OF chk wfb]
  from cf have l1: "map links (BusConfigs s1) = map links (BusConfigs (bst b))"
    and st1: "Bus_Config_Status s1" by simp_all
  have rel1: "parent_rel s1 = parent_rel s" using links_parent_rel[OF l1] relb by simp
  note wf1 = bus_wf_links[OF l1 st1 wfb]
  from insert_bus_slot_rel[OF ins] obtain ins outs
    where o: "prefix_of (auxout (bus_slot b)) (auxout_count (bus_slot b)) = Some outs"
      and i: "outs = [] \<or> prefix_of (auxin (bus_slot b)) (auxin_count (bus_slot b)) = Some ins"
      and sub: "parent_rel s2 \<subseteq> parent_rel s1 \<union> (if outs = [] then {} else set ins \<times> set outs)"
      and len2: "length (BusConfigs s2) = length (BusConfigs s1)"
      and st2: "Bus_Config_Status s2 = Bus_Config_Status s1" by blast
  have ac2: "acyclic (parent_rel s2)"
  proof (cases "outs = []")
    case True
    with sub rel1 have "parent_rel s2 \<subseteq> parent_rel s" by simp
    from acyclic_subset[OF ac this] show ?thesis .
  next
    case False
    with i have i': "prefix_of (auxin (bus_slot b)) (auxin_count (bus_slot b)) = Some ins" by simp
    have "\<forall>a \<in> set ins. \<forall>anc \<in> set outs. (anc, a) \<notin> (parent_rel s)\<^sup>*"
      using check_sound[OF chk wfb i' o] relb by auto
    from acyclic_add_edges[OF ac this] have a: "acyclic (parent_rel s \<union> set ins \<times> set outs)" .
    from sub False rel1 have "parent_rel s2 \<subseteq> parent_rel s \<union> set ins \<times> set outs" by simp
    from acyclic_subset[OF a this] show ?thesis .
  qed
  let ?s3 = "s2\<lparr>Inst_Bus_Config :=
                 bump_counts name (chain_incount b) (chain_outcount b) (Inst_Bus_Config s2)\<rparr>"
  have wf3: "bus_wf e ?s3" using wf1 len2 st2 st1 by (simp add: bus_wf_def)
  have rel3: "parent_rel ?s3 = parent_rel s2" by (rule parent_rel_BusConfigs) simp
  from create_play_order_frame[OF cpo wf3]
  have l': "map links (BusConfigs s') = map links (BusConfigs ?s3)" and wf': "bus_wf e s'" by blast+
  from links_parent_rel[OF l'] rel3 ac2 wf' show ?thesis by simp
qed

lemma bus_config_exited:
  assumes r: "bus_config e name args s = Some (Exited code s')" and wf: "bus_wf e s"
  shows "bus_wf e s' \<and> map links (BusConfigs s') = map links (BusConfigs s) \<and>
         Inst_Bus_Config s' = Inst_Bus_Config s \<and> AuxToAuxPlayList s' = AuxToAuxPlayList s"
proof -
  let ?b0 = "\<lparr>bus_slot = new_BusSlot (busCount e), chain_incount = 0, chain_outcount = 0, bst = s\<rparr>"
  from r have "s' = s \<or> (\<exists>c. config_all e args ?b0 = Some (Inl (c, s'))) \<or>
      (\<exists>b err. config_all e args ?b0 = Some (Inr b) \<and>
          check_bus_inst_config e (bus_slot b) True (bst b) = Some (err, s'))"
    unfolding bus_config_def by (auto split: option.splits sum.splits prod.splits if_splits)
  then consider (same) "s' = s" | (parse) c where "config_all e args ?b0 = Some (Inl (c, s'))"
    | (check) b err where "config_all e args ?b0 = Some (Inr b)"
        "check_bus_inst_config e (bus_slot b) True (bst b) = Some (err, s')" by blast
  then show ?thesis
  proof cases
    case same
    with wf show ?thesis by simp
  next
    case parse
    from config_all_frame[OF parse] have sg: "same_graph s' s" by simp
    from same_graph_wf[OF sg wf] sg show ?thesis by (simp add: same_graph_def)
  next
    case check
    from config_all_frame[OF check(1)] have sg: "same_graph (bst b) s" by simp
    note wfb = same_graph_wf[OF sg wf]
    note cf = check_frame[OF check(2) wfb]
    from cf have l1: "map links (BusConfigs s') = map links (BusConfigs (bst b))"
      and st1: "Bus_Config_Status s'" by simp_all
    from bus_wf_links[OF l1 st1 wfb] cf sg show ?thesis by (simp add: same_graph_def)
  qed
qed

lemma cycle_rejected:
  assumes wf: "bus_wf e s" and ac: "acyclic (parent_rel s)"
    and cfg: "config_all e args
                \<lparr>bus_slot = new_BusSlot (busCount e), chain_incount = 0, chain_outcount = 0, bst = s\<rparr>
              = Some (Inr b)"
    and i: "prefix_of (auxin (bus_slot b)) (auxin_count (bus_slot b)) = Some ins"
    and o: "prefix_of (auxout (bus_slot b)) (auxout_count (bus_slot b)) = Some outs"
    and cyc: "\<not> acyclic (parent_rel s \<union> set ins \<times> set outs)"
    and chk: "check_bus_inst_config e (bus_slot b) True (bst b) = Some (err, s1)"
  shows "err = LOOP_ERR \<and> args \<noteq> []"
proof -
  from config_all_frame[OF cfg] have sg: "same_graph (bst b) s" by simp
  note wfb = same_graph_wf[OF sg wf]
  from sg have lb: "map links (BusConfigs (bst b)) = map links (BusConfigs s)"
    by (simp add: same_graph_def)
  note relb = links_parent_rel[OF lb]
  have "err \<noteq> NO_ERR"
  proof
    assume "err = NO_ERR"
    with chk have c: "check_bus_inst_config e (bus_slot b) True (bst b) = Some (NO_ERR, s1)" by simp
    have "\<forall>a \<in> set ins. \<forall>anc \<in> set outs. (anc, a) \<notin> (parent_rel s)\<^sup>*"
      using check_sound[OF c wfb i o] relb by auto
    from acyclic_add_edges[OF ac this] cyc show False by simp
  qed
  with check_frame[OF chk wfb] have "err = LOOP_ERR" by auto
  moreover have "args \<noteq> []"
  proof
    assume "args = []"
    with cfg have "bus_slot b = new_BusSlot (busCount e)" by auto
    with i have "ins = []" by (simp add: new_BusSlot_def prefix_of_def)
    with cyc ac show False by simp
  qed
  ultimately show ?thesis by simp
qed

lemma bus_init_wf: "bus_wf e (bus_init e)"
  by (simp add: bus_wf_def bus_init_def zeroConfig_def)

lemma bus_init_rel: "parent_rel (bus_init e) = {}"
  by (auto simp: parent_rel_def bus_init_def zeroConfig_def parent_list_def)

lemma bus_configs_inv:
  "bus_configs e calls s = Some s' \<Longrightarrow> bus_wf e s \<Longrightarrow> acyclic (parent_rel s) \<Longrightarrow>
     bus_wf e s' \<and> acyclic (parent_rel s')"
proof (induction calls arbitrary: s)
  case Nil
  then show ?case by simp
next
  case (Cons c calls)
  obtain name args where c: "c = (name, args)" by (cases c)
  show ?case
  proof (cases "bus_config e name args s")
    case None
    with Cons.prems(1) c show ?thesis by simp
  next
    case (Some r)
    show ?thesis
    proof (cases r)
      case (Returned s1)
      with Some Cons.prems(1) c have n: "bus_configs e calls s1 = Some s'" by simp
      from bus_config_returned[OF Some[unfolded Returned] Cons.prems(2,3)]
      have "bus_wf e s1" "acyclic (parent_rel s1)" by simp_all
      from Cons.IH[OF n this] show ?thesis .
    next
      case (Exited code s1)
      with Some Cons.prems(1) c have n: "bus_configs e calls s1 = Some s'" by simp
      from bus_config_exited[OF Some[unfolded Exited] Cons.prems(2)]
      have w: "bus_wf e s1" and l: "map links (BusConfigs s1) = map links (BusConfigs s)" by simp_all
      from links_parent_rel[OF l] Cons.prems(3) have "acyclic (parent_rel s1)" by simp
      from Cons.IH[OF n w this] show ?thesis .
    qed
  qed
qed

lemma parent_relI:
  "c < length (BusConfigs s) \<Longrightarrow> p \<in> set (parent_list (BusConfigs s ! c)) \<Longrightarrow> (p, int c) \<in> parent_rel s"
  by (auto simp: parent_rel_def)

subsection \<open>What the check guarantees\<close>

text \<open>
  The parent lists as the traversal reads them, \<^verbatim>\<open>bus_list[0..bus_count-1]\<close>, never hold a
  cycle: a call that would close one among them gets \<^verbatim>\<open>LOOP_ERR\<close> from the check, and
  \<^verbatim>\<open>bus_config\<close> leaves through \<^verbatim>\<open>RTExit(SYSTEM_ERROR)\<close> before any insertion. These lists are
  not all the links that were inserted: \<^verbatim>\<open>insert_bus_slot\<close> sets \<^verbatim>\<open>bus_count\<close> back to \<open>0\<close> when
  it reaches \<^verbatim>\<open>busCount\<close>, and the parents recorded until then are no longer read.
\<close>

lemma parent_lists_read_acyclic:
  assumes run: "bus_configs e calls (bus_init e) = Some s"
  shows "acyclic (parent_rel s) \<and>
     (\<forall>name args code s'. bus_config e name args s = Some (Exited code s') \<longrightarrow>
        map links (BusConfigs s') = map links (BusConfigs s) \<and>
        Inst_Bus_Config s' = Inst_Bus_Config s \<and> AuxToAuxPlayList s' = AuxToAuxPlayList s) \<and>
     (\<forall>name args b ins outs err s1.
        rtsetparams_was_called e \<and>
        config_all e args
          \<lparr>bus_slot = new_BusSlot (busCount e), chain_incount = 0, chain_outcount = 0, bst = s\<rparr>
          = Some (Inr b) \<and>
        prefix_of (auxin (bus_slot b)) (auxin_count (bus_slot b)) = Some ins \<and>
        prefix_of (auxout (bus_slot b)) (auxout_count (bus_slot b)) = Some outs \<and>
        \<not> acyclic (parent_rel s \<union> set ins \<times> set outs) \<and>
        check_bus_inst_config e (bus_slot b) True (bst b) = Some (err, s1) \<longrightarrow>
        err = LOOP_ERR \<and> bus_config e name args s = Some (Exited SYSTEM_ERROR s1))"
proof -
  have "acyclic (parent_rel (bus_init e))" by (simp add: bus_init_rel acyclic_def)
  from bus_configs_inv[OF run bus_init_wf this]
  have wf: "bus_wf e s" and ac: "acyclic (parent_rel s)" by simp_all
  have p2: "map links (BusConfigs s') = map links (BusConfigs s) \<and>
        Inst_Bus_Config s' = Inst_Bus_Config s \<and> AuxToAuxPlayList s' = AuxToAuxPlayList s"
    if "bus_config e name args s = Some (Exited code s')" for name args code s'
    using bus_config_exited[OF that wf] by simp
  have p3: "err = LOOP_ERR \<and> bus_config e name args s = Some (Exited SYSTEM_ERROR s1)"
    if h: "rtsetparams_was_called e \<and>
        config_all e args
          \<lparr>bus_slot = new_BusSlot (busCount e), chain_incount = 0, chain_outcount = 0, bst = s\<rparr>
          = Some (Inr b) \<and>
        prefix_of (auxin (bus_slot b)) (auxin_count (bus_slot b)) = Some ins \<and>
        prefix_of (auxout (bus_slot b)) (auxout_count (bus_slot b)) = Some outs \<and>
        \<not> acyclic (parent_rel s \<union> set ins \<times> set outs) \<and>
        check_bus_inst_config e (bus_slot b) True (bst b) = Some (err, s1)"
    for name args b ins outs err s1
  proof -
    from h have rt: "rtsetparams_was_called e"
      and cfg: "config_all e args
          \<lparr>bus_slot = new_BusSlot (busCount e), chain_incount = 0, chain_outcount = 0, bst = s\<rparr>
          = Some (Inr b)"
      and i: "prefix_of (auxin (bus_slot b)) (auxin_count (bus_slot b)) = Some ins"
      and o: "prefix_of (auxout (bus_slot b)) (auxout_count (bus_slot b)) = Some outs"
      and cyc: "\<not> acyclic (parent_rel s \<union> set ins \<times> set outs)"
      and chk: "check_bus_inst_config e (bus_slot b) True (bst b) = Some (err, s1)" by blast+
    from cycle_rejected[OF wf ac cfg i o cyc chk] have e: "err = LOOP_ERR" and ne: "args \<noteq> []"
      by simp_all
    from ne have "\<not> 1 + length args < 2" by (cases args) simp_all
    with rt cfg chk e have "bus_config e name args s = Some (Exited SYSTEM_ERROR s1)"
      by (simp add: bus_config_def)
    with e show ?thesis by simp
  qed
  from ac p2 p3 show ?thesis by blast
qed

subsection \<open>A loop that is accepted\<close>

text \<open>
  Claim C1 against the code, with four buses. After three calls \<^verbatim>\<open>A\<close> (aux 0 to aux 1) the
  parent list of bus 1 reads \<open>0, 0, 0\<close>, and the call \<^verbatim>\<open>B\<close> (aux 1 to aux 0) is rejected:
  \<^verbatim>\<open>bus_config\<close> leaves through \<^verbatim>\<open>RTExit(SYSTEM_ERROR)\<close>. The fourth call \<^verbatim>\<open>A\<close> makes
  \<^verbatim>\<open>bus_count\<close> of bus 1 reach \<^verbatim>\<open>busCount\<close> and sets it to \<open>0\<close>: the parent list of bus 1
  reads empty. The same call \<^verbatim>\<open>B\<close> then returns, and the queue routes \<^verbatim>\<open>A\<close> from aux 0 to
  aux 1 and \<^verbatim>\<open>B\<close> from aux 1 to aux 0: a loop between bus 0 and bus 1.
\<close>

theorem bus_loop_accepted_after_wrap:
  "map_option (\<lambda>s. map parents_of (BusConfigs s)) (returns_all e4 (take 3 wrap_calls) (bus_init e4))
     = Some [Some [], Some [0, 0, 0], Some [], Some []] \<and>
   ending (bus_config e4 ''B'' [Some ''aux 1 in'', Some ''aux 0 out'']
             (the (returns_all e4 (take 3 wrap_calls) (bus_init e4))))
     = Some (False, SYSTEM_ERROR, [Some [], Some [0, 0, 0], Some [], Some []]) \<and>
   map_option (\<lambda>s. map parents_of (BusConfigs s)) (returns_all e4 (take 4 wrap_calls) (bus_init e4))
     = Some [Some [], Some [], Some [], Some []] \<and>
   map_option (\<lambda>s. (map parents_of (BusConfigs s), routes s)) (returns_all e4 wrap_calls (bus_init e4))
     = Some ([Some [1], Some [], Some [], Some []],
             [(''A'', [(Some [0], Some [1])]), (''B'', [(Some [1], Some [0])])])"
  by code_simp

subsection \<open>The play order\<close>

text \<open>
  Claim C2 against the code. The four calls \<^verbatim>\<open>A\<close>: aux 0 to aux 1, \<^verbatim>\<open>B\<close>: aux 1 to aux 3,
  \<^verbatim>\<open>C\<close>: aux 1 to aux 2, \<^verbatim>\<open>D\<close>: aux 2 to aux 3 all return. Bus 1 is then in the parent
  list of bus 2, and \<^verbatim>\<open>AuxToAuxPlayList\<close> is \<open>0, 2, 1, 3\<close>: bus 2 comes before its parent.
\<close>

theorem play_order_not_topological:
  "map_option (\<lambda>s. (AuxToAuxPlayList s, map parents_of (BusConfigs s)))
     (returns_all e4 diamond (bus_init e4))
   = Some ([0, 2, 1, 3], [Some [], Some [0], Some [1], Some [1, 2]])"
  by code_simp

section \<open>User-defined functions of Minc\<close>

subsection \<open>Nodes\<close>

text \<open>
  The declaration of one argument (\<^verbatim>\<open>NodeDecl\<close>: the name and the type), and the argument
  list of a function: \<^verbatim>\<open>NodeArgListElem\<close> has the elements before it as \<^verbatim>\<open>child(0)\<close> and
  its declaration as \<^verbatim>\<open>child(1)\<close>; \<^verbatim>\<open>NodeEmptyListElem\<close> ends the chain.
\<close>

datatype Decl = NodeDecl string MincDataType

datatype ArgNode = NodeEmptyListElem | NodeArgListElem ArgNode Decl

text \<open>
  The statements and expressions of a function body that move between scopes and
  calls. The arguments of \<^verbatim>\<open>NodeCall\<close> are the payloads of its chain of \<^verbatim>\<open>NodeListElem\<close>,
  the first argument first; its target is the name that \<^verbatim>\<open>NodeLoadFuncSym\<close> looks up.
\<close>

datatype Node =
    NodeNoop
  | NodeConstf ieee
  | NodeSeq Node Node
  | NodeBlock Node
  | NodeIf Node Node
  | NodeIfElse Node Node Node
  | NodeWhile Node Node
  | NodeRet Node
  | NodeFuncBodySeq Node Node
  | NodeCall string "Node list"

text \<open>A \<^verbatim>\<open>MincFunction\<close>: the argument list and the body.\<close>

datatype MincFunction = MincFunction ArgNode Node

subsection \<open>The state of the interpreter\<close>

text \<open>
  The static variables of \<^verbatim>\<open>Node.cpp\<close>, the scope stack (the current scope first, each
  scope a list of symbols), the number of open call frames and what has been reported.
  \<^verbatim>\<open>sMincList\<close> holds the entries filled so far, so that \<^verbatim>\<open>sMincListLen\<close> is its length.
\<close>

record minc =
  scopes :: "(string \<times> MincValue) list list"
  call_frames :: nat
  sMincList :: "MincValue list"
  list_stack :: "MincValue list list"
  sArgListLen :: int
  sArgListIndex :: int
  inCalledFunctionArgList :: bool
  sCalledFunctions :: "string list"
  sFunctionCallDepth :: int
  sMincWarningLevel :: int
  diags :: "diag list"

definition sMincListLen :: "minc \<Rightarrow> int" where
  "sMincListLen st = int (length (sMincList st))"

definition inFunctionCall :: "minc \<Rightarrow> bool" where
  "inFunctionCall st = (sFunctionCallDepth st > 0)"

text \<open>
  What the interpreter takes from outside \<^verbatim>\<open>Node.cpp\<close>: the function symbols with their
  values (\<open>None\<close> for a function declared and not defined), the dispatch of builtin and
  external functions (the result code and the value returned), the conversion of a
  value to \<^verbatim>\<open>bool\<close>, whether \<^verbatim>\<open>minc_die\<close> returns to its caller, the compile-time switch
  \<^verbatim>\<open>ERROR_FAIL_ON_UNDEFINED_FUNCTION\<close>, and four constants.
\<close>

record host =
  function_symbols :: "(string \<times> MincFunction option) list"
  dispatch :: "string \<Rightarrow> MincValue list \<Rightarrow> int \<times> MincValue"
  truth :: "MincValue \<Rightarrow> bool"
  die_returns :: bool
  fail_on_undefined :: bool
  MAXSTACK :: nat
  MAXDISPARGS :: nat
  FUNCTION_NOT_FOUND :: int
  MincNoDefaultedArgWarnings :: int

text \<open>
  How the evaluation of a node ends: with the node's value, with the \<^verbatim>\<open>throw this\<close> of a
  \<^verbatim>\<open>NodeRet\<close> (carrying its value), with the \<^verbatim>\<open>throw result\<close> of a builtin call, with
  \<^verbatim>\<open>minc_die\<close> not returning, or undefined (an array index out of range).
\<close>

datatype outcome = Value MincValue | ThrowNode MincValue | ThrowInt int | ThrowDie | Undefined

type_synonym result = "(outcome \<times> minc) option"

subsection \<open>Diagnostics\<close>

definition minc_warn :: "string \<Rightarrow> minc \<Rightarrow> minc" where
  "minc_warn msg st = st\<lparr>diags := diags st @ [Warn msg]\<rparr>"

definition minc_internal_error :: "string \<Rightarrow> minc \<Rightarrow> minc" where
  "minc_internal_error msg st = st\<lparr>diags := diags st @ [InternalError msg]\<rparr>"

text \<open>
  \<^verbatim>\<open>minc_die\<close> is not defined in these sources, and the code has statements after calls
  of it: it reports, and the host decides whether it returns.
\<close>

definition minc_die :: "host \<Rightarrow> string \<Rightarrow> minc \<Rightarrow> outcome \<times> minc" where
  "minc_die h msg st =
     (if die_returns h then Value MVoid else ThrowDie, st\<lparr>diags := diags st @ [Die msg]\<rparr>)"

text \<open>Going on after a step that cannot run out of fuel, and after one that can.\<close>

definition thenDo :: "outcome \<times> minc \<Rightarrow> (minc \<Rightarrow> outcome \<times> minc) \<Rightarrow> outcome \<times> minc" where
  "thenDo r k = (case r of (Value v, st) \<Rightarrow> k st | (x, st) \<Rightarrow> (x, st))"

definition andThen :: "result \<Rightarrow> (MincValue \<Rightarrow> minc \<Rightarrow> result) \<Rightarrow> result" where
  "andThen r k =
     (case r of
        None \<Rightarrow> None
      | Some (x, st) \<Rightarrow> (case x of Value v \<Rightarrow> k v st | _ \<Rightarrow> Some (x, st)))"

subsection \<open>Scopes and call frames\<close>

text \<open>
  Modelled from the spec: \<^verbatim>\<open>Scope.cpp\<close> is not among the sources. Scopes form a stack, the
  global scope at index 0, and \<^verbatim>\<open>pushScope\<close> and \<^verbatim>\<open>popScope\<close> push and pop one scope.
\<close>

definition push_scope :: "minc \<Rightarrow> minc" where
  "push_scope st = st\<lparr>scopes := [] # scopes st\<rparr>"

definition pop_scope :: "minc \<Rightarrow> minc" where
  "pop_scope st = st\<lparr>scopes := tl (scopes st)\<rparr>"

text \<open>Modelled from the spec: \<^verbatim>\<open>currentScope\<close> is the index of the innermost scope.\<close>

definition current_scope :: "minc \<Rightarrow> int" where
  "current_scope st = int (length (scopes st)) - 1"

text \<open>
  Modelled from the spec: \<^verbatim>\<open>restoreScope(savedIndex)\<close> pops scopes until the current scope
  is the saved one.
\<close>

definition restore_scope :: "int \<Rightarrow> minc \<Rightarrow> minc" where
  "restore_scope saved st = st\<lparr>scopes := drop (nat (current_scope st - saved)) (scopes st)\<rparr>"

text \<open>
  Modelled from the spec: \<^verbatim>\<open>pushFunctionStack\<close> and \<^verbatim>\<open>popFunctionStack\<close> bracket a call: the
  first opens a call frame and the second closes it. The spec says no more of them, and
  \<^verbatim>\<open>Scope.cpp\<close> is not among the sources: what they do to the scope stack is not known, and
  here they leave it alone.
\<close>

definition push_function_stack :: "minc \<Rightarrow> minc" where
  "push_function_stack st = st\<lparr>call_frames := call_frames st + 1\<rparr>"

definition pop_function_stack :: "minc \<Rightarrow> minc" where
  "pop_function_stack st = st\<lparr>call_frames := call_frames st - 1\<rparr>"

text \<open>
  Modelled from the spec: the lookup modes \<^verbatim>\<open>ThisLevel\<close> (current scope only),
  \<^verbatim>\<open>GlobalLevel\<close> and \<^verbatim>\<open>AnyLevel\<close> (innermost outward). The result is the index of the scope
  of the symbol found and its value.
\<close>

datatype ScopeLookupType = AnyLevel | GlobalLevel | ThisLevel

fun lookup_scopes :: "string \<Rightarrow> (string \<times> MincValue) list list \<Rightarrow> (int \<times> MincValue) option" where
  "lookup_scopes name [] = None"
| "lookup_scopes name (s # ss) =
     (case map_of s name of Some v \<Rightarrow> Some (int (length ss), v) | None \<Rightarrow> lookup_scopes name ss)"

definition lookupSymbol :: "string \<Rightarrow> ScopeLookupType \<Rightarrow> minc \<Rightarrow> (int \<times> MincValue) option" where
  "lookupSymbol name level st =
     (case level of
        AnyLevel \<Rightarrow> lookup_scopes name (scopes st)
      | GlobalLevel \<Rightarrow>
          (case scopes st of [] \<Rightarrow> None | _ \<Rightarrow> map_option (Pair 0) (map_of (last (scopes st)) name))
      | ThisLevel \<Rightarrow>
          (case scopes st of
             [] \<Rightarrow> None
           | s # ss \<Rightarrow> map_option (Pair (int (length ss))) (map_of s name)))"

text \<open>
  Modelled from the spec: \<^verbatim>\<open>installSymbol(name, NO)\<close> creates the symbol in the current
  scope, in front of one of the same name. The value is the one that the caller stores
  right after.
\<close>

definition installSymbol :: "string \<Rightarrow> MincValue \<Rightarrow> minc \<Rightarrow> minc" where
  "installSymbol name v st =
     (case scopes st of [] \<Rightarrow> st | s # ss \<Rightarrow> st\<lparr>scopes := ((name, v) # s) # ss\<rparr>)"

text \<open>The value of the symbol of that name in the current scope, and storing into it.\<close>

definition symbol_value :: "string \<Rightarrow> minc \<Rightarrow> MincValue" where
  "symbol_value name st =
     (case scopes st of
        [] \<Rightarrow> MVoid
      | s # ss \<Rightarrow> (case map_of s name of None \<Rightarrow> MVoid | Some v \<Rightarrow> v))"

fun assign :: "string \<Rightarrow> MincValue \<Rightarrow> (string \<times> MincValue) list \<Rightarrow> (string \<times> MincValue) list" where
  "assign name v [] = []"
| "assign name v ((m, x) # s) = (if m = name then (m, v) # s else (m, x) # assign name v s)"

definition symbol_copyValue :: "string \<Rightarrow> MincValue \<Rightarrow> minc \<Rightarrow> minc" where
  "symbol_copyValue name v st =
     (case scopes st of [] \<Rightarrow> st | s # ss \<Rightarrow> st\<lparr>scopes := assign name v s # ss\<rparr>)"

text \<open>
  Modelled from the spec: \<^verbatim>\<open>MincValue.cpp\<close> is not among the sources. \<^verbatim>\<open>MincValue(type)\<close> is
  the zero value of the type, and \<^verbatim>\<open>zero()\<close> keeps the type of a value and zeroes it.
\<close>

fun zero_of :: "MincDataType \<Rightarrow> MincValue" where
  "zero_of MincVoidType = MVoid"
| "zero_of MincFloatType = MFloat (Finite 0)"
| "zero_of MincStringType = MString None"
| "zero_of MincHandleType = MHandle None"
| "zero_of MincListType = MList None"
| "zero_of MincMapType = MMap None"
| "zero_of MincStructType = MStruct None"
| "zero_of MincFunctionType = MFunction None"

definition zero :: "MincValue \<Rightarrow> MincValue" where
  "zero v = zero_of (dataType v)"

subsection \<open>The argument list of the callee\<close>

text \<open>\<^verbatim>\<open>NodeDecl::doExct\<close>. Afterwards the node's symbol is the one of its name in the current scope.\<close>

fun NodeDecl_doExct :: "host \<Rightarrow> Decl \<Rightarrow> minc \<Rightarrow> outcome \<times> minc" where
  "NodeDecl_doExct h (NodeDecl name ty) st =
     (case lookupSymbol name (if inCalledFunctionArgList st then ThisLevel else AnyLevel) st of
        None \<Rightarrow> (Value MVoid, installSymbol name (zero_of ty) st)
      | Some (sc, v) \<Rightarrow>
          if sc = current_scope st then
            thenDo
              (if inCalledFunctionArgList st
               then minc_die h ''%s(): argument variable %s already used'' st
               else (Value MVoid, st))
              (\<lambda>st1. (Value MVoid, minc_warn ''variable %s redefined - using existing one'' st1))
          else
            (Value MVoid,
             installSymbol name (zero_of ty)
               (if \<not> inFunctionCall st \<and> \<not> inCalledFunctionArgList st
                then minc_warn ''variable %s also defined at enclosing scope'' st else st)))"

text \<open>
  \<^verbatim>\<open>NodeArgListElem::doExct\<close> after its two children have run: the comparison of the
  counts, the default for an argument that was not passed, and the copy of one that
  was.
\<close>

definition arg_copy :: "host \<Rightarrow> string \<Rightarrow> minc \<Rightarrow> outcome \<times> minc" where
  "arg_copy h name st =
     (if sMincListLen st > sArgListLen st then
        minc_die h ''%s() takes %d arguments but was passed %d!'' st
      else if sArgListIndex st \<ge> sMincListLen st then
        let st1 = (if sMincWarningLevel st > MincNoDefaultedArgWarnings h
                   then minc_warn ''%s(): arg %d (%s) not provided - defaulting to 0'' st else st);
            zeroElem = zero (symbol_value name st1)
        in (Value zeroElem, (symbol_copyValue name zeroElem st1)\<lparr>sArgListIndex := sArgListIndex st1 + 1\<rparr>)
      else if sArgListIndex st < 0 then (Undefined, st)
      else
        let argValue = sMincList st ! nat (sArgListIndex st) in
        if dataType argValue = MincVoidType then
          (Value MVoid,
           (minc_internal_error ''%s() arg %d (%s) is an unhandled type!'' st)
             \<lparr>sArgListIndex := sArgListIndex st + 1\<rparr>)
        else if dataType (symbol_value name st) \<noteq> dataType argValue then
          thenDo (minc_die h ''%s() arg %d (%s) passed as %s, expecting %s'' st)
            (\<lambda>st1. (Value MVoid, st1\<lparr>sArgListIndex := sArgListIndex st1 + 1\<rparr>))
        else
          (Value argValue,
           (symbol_copyValue name argValue st)\<lparr>sArgListIndex := sArgListIndex st + 1\<rparr>))"

fun NodeArgListElem_doExct :: "host \<Rightarrow> ArgNode \<Rightarrow> minc \<Rightarrow> outcome \<times> minc" where
  "NodeArgListElem_doExct h NodeEmptyListElem st = (Value MVoid, st)"
| "NodeArgListElem_doExct h (NodeArgListElem before (NodeDecl name ty)) st =
     thenDo (NodeArgListElem_doExct h before (st\<lparr>sArgListLen := sArgListLen st + 1\<rparr>))
       (\<lambda>st1. thenDo (NodeDecl_doExct h (NodeDecl name ty) st1) (arg_copy h name))"

text \<open>\<^verbatim>\<open>NodeArgList::doExct\<close>.\<close>

definition NodeArgList_doExct :: "host \<Rightarrow> ArgNode \<Rightarrow> minc \<Rightarrow> outcome \<times> minc" where
  "NodeArgList_doExct h argl st =
     thenDo
       (NodeArgListElem_doExct h argl
          (st\<lparr>sArgListLen := 0, sArgListIndex := 0, inCalledFunctionArgList := True\<rparr>))
       (\<lambda>st1. (Value MVoid, st1\<lparr>inCalledFunctionArgList := False\<rparr>))"

subsection \<open>The list stack\<close>

text \<open>\<^verbatim>\<open>push_list\<close> and \<^verbatim>\<open>pop_list\<close>; \<^verbatim>\<open>list_stack_ptr\<close> is the length of \<^verbatim>\<open>list_stack\<close>.\<close>

definition push_list :: "host \<Rightarrow> minc \<Rightarrow> outcome \<times> minc" where
  "push_list h st =
     thenDo
       (if length (list_stack st) \<ge> MAXSTACK h
        then minc_die h ''stack overflow: too many nested list levels or function calls'' st
        else (Value MVoid, st))
       (\<lambda>st1. if length (list_stack st1) \<ge> MAXSTACK h then (Undefined, st1)
              else (Value MVoid, st1\<lparr>list_stack := sMincList st1 # list_stack st1, sMincList := []\<rparr>))"

definition pop_list :: "host \<Rightarrow> minc \<Rightarrow> outcome \<times> minc" where
  "pop_list h st =
     thenDo
       (if list_stack st = [] then minc_die h ''stack underflow'' st else (Value MVoid, st))
       (\<lambda>st1. case list_stack st1 of
                [] \<Rightarrow> (Undefined, st1)
              | l # ls \<Rightarrow> (Value MVoid, st1\<lparr>sMincList := l, list_stack := ls\<rparr>))"

subsection \<open>Calls\<close>

text \<open>
  The chain of \<^verbatim>\<open>NodeListElem\<close> that evaluates the arguments of a call into \<^verbatim>\<open>sMincList\<close>,
  the first argument first. \<open>run\<close> evaluates a child.
\<close>

fun exct_args :: "host \<Rightarrow> (Node \<Rightarrow> minc \<Rightarrow> result) \<Rightarrow> Node list \<Rightarrow> minc \<Rightarrow> result" where
  "exct_args h run [] st = Some (Value MVoid, st)"
| "exct_args h run (a # rest) st =
     andThen
       (if sMincListLen st = int (MAXDISPARGS h) then
          Some (minc_die h ''exceeded maximum number of items for a list'' st)
        else
          andThen (run a st) (\<lambda>v st1. Some (Value v, st1\<lparr>sMincList := sMincList st1 @ [v]\<rparr>)))
       (\<lambda>v st1. exct_args h run rest st1)"

text \<open>
  \<^verbatim>\<open>NodeCall::callMincFunctionFromNode\<close> for a function that is not a method; the printing
  of the arguments is left out. \<^verbatim>\<open>copyArguments\<close> runs the argument list and \<^verbatim>\<open>execute\<close> the
  body. The three ways out of the \<^verbatim>\<open>try\<close> block are the three cases of the result of the
  body.
\<close>

definition callMincFunctionFromNode ::
  "host \<Rightarrow> (Node \<Rightarrow> minc \<Rightarrow> result) \<Rightarrow> string \<Rightarrow> MincFunction option \<Rightarrow> minc \<Rightarrow> result" where
  "callMincFunctionFromNode h run name theFunction st =
     (let st0 = st\<lparr>sCalledFunctions := sCalledFunctions st @ [name]\<rparr>;
          leave = (\<lambda>v s. Some (Value v, s\<lparr>sCalledFunctions := butlast (sCalledFunctions s)\<rparr>));
          finish = (\<lambda>v s. leave v (pop_function_stack (s\<lparr>sFunctionCallDepth := sFunctionCallDepth s - 1\<rparr>)));
          rethrow = (\<lambda>x s. Some (x, (pop_function_stack s)\<lparr>sFunctionCallDepth := sFunctionCallDepth s - 1\<rparr>))
      in case theFunction of
           None \<Rightarrow>
             (case minc_die h ''mfunction variable %s is NULL'' st0 of
                (Value v, st1) \<Rightarrow> leave MVoid st1
              | (x, st1) \<Rightarrow> Some (x, st1))
         | Some (MincFunction argl body) \<Rightarrow>
             (case NodeArgList_doExct h argl (push_scope (push_function_stack st0)) of
                (Value u, st2) \<Rightarrow>
                  let savedScope = current_scope st2;
                      st3 = st2\<lparr>sFunctionCallDepth := sFunctionCallDepth st2 + 1\<rparr>;
                      savedCallDepth = sFunctionCallDepth st3
                  in (case run body st3 of
                        None \<Rightarrow> None
                      | Some (Value v, st4) \<Rightarrow> finish v st4
                      | Some (ThrowNode v, st4) \<Rightarrow>
                          finish v (restore_scope savedScope (st4\<lparr>sFunctionCallDepth := savedCallDepth\<rparr>))
                      | Some (x, st4) \<Rightarrow> rethrow x st4)
              | (x, st2) \<Rightarrow> rethrow x st2))"

text \<open>\<^verbatim>\<open>NodeCall::callBuiltinFunction\<close>; \<^verbatim>\<open>NO_ERROR\<close> is \<open>0\<close>.\<close>

definition callBuiltinFunction :: "host \<Rightarrow> string \<Rightarrow> minc \<Rightarrow> result" where
  "callBuiltinFunction h functionName st =
     (case dispatch h functionName (sMincList st) of
        (res, retval) \<Rightarrow>
          if res = 0 then Some (Value retval, st)
          else if res = FUNCTION_NOT_FOUND h then
            (if fail_on_undefined h then Some (ThrowInt res, st) else Some (Value retval, st))
          else Some (ThrowInt res, st))"

subsection \<open>The walk of the tree\<close>

text \<open>
  \<^verbatim>\<open>doExct\<close> of each node, with \<open>run\<close> for the \<^verbatim>\<open>exct()\<close> of a child. An exception leaves
  through every node but \<^verbatim>\<open>NodeCall\<close> as it is: in particular \<^verbatim>\<open>NodeBlock\<close> does not pop its
  scope then.
\<close>

fun doExct :: "host \<Rightarrow> (Node \<Rightarrow> minc \<Rightarrow> result) \<Rightarrow> Node \<Rightarrow> minc \<Rightarrow> result" where
  "doExct h run NodeNoop st = Some (Value MVoid, st)"
| "doExct h run (NodeConstf x) st = Some (Value (MFloat x), st)"
| "doExct h run (NodeSeq a b) st =
     andThen (run a st) (\<lambda>u st1. andThen (run b st1) (\<lambda>v st2. Some (Value MVoid, st2)))"
| "doExct h run (NodeBlock a) st =
     andThen (run a (push_scope st)) (\<lambda>u st1. Some (Value MVoid, pop_scope st1))"
| "doExct h run (NodeIf c a) st =
     andThen (run c st)
       (\<lambda>v st1. if truth h v then andThen (run a st1) (\<lambda>u st2. Some (Value MVoid, st2))
                else Some (Value MVoid, st1))"
| "doExct h run (NodeIfElse c a b) st =
     andThen (run c st)
       (\<lambda>v st1. andThen (if truth h v then run a st1 else run b st1) (\<lambda>u st2. Some (Value MVoid, st2)))"
| "doExct h run (NodeWhile c a) st =
     andThen (run c st)
       (\<lambda>v st1. if truth h v then andThen (run a st1) (\<lambda>u st2. run (NodeWhile c a) st2)
                else Some (Value MVoid, st1))"
| "doExct h run (NodeRet a) st = andThen (run a st) (\<lambda>v st1. Some (ThrowNode v, st1))"
| "doExct h run (NodeFuncBodySeq a b) st =
     andThen (run a st) (\<lambda>u st1. andThen (run b st1) (\<lambda>v st2. Some (Value v, st2)))"
| "doExct h run (NodeCall name args) st =
     andThen (Some (push_list h st))
       (\<lambda>u st1. andThen (exct_args h run args st1)
          (\<lambda>u st2. andThen
             (case map_of (function_symbols h) name of
                Some theFunction \<Rightarrow> callMincFunctionFromNode h run name theFunction st2
              | None \<Rightarrow> callBuiltinFunction h name st2)
             (\<lambda>v st3. andThen (Some (pop_list h st3)) (\<lambda>u st4. Some (Value v, st4)))))"

text \<open>
  \<^verbatim>\<open>exct()\<close> with a bound on the depth of the walk, loops included: \<open>None\<close> when the bound
  is reached.
\<close>

primrec exct :: "nat \<Rightarrow> host \<Rightarrow> Node \<Rightarrow> minc \<Rightarrow> result" where
  "exct 0 h = (\<lambda>node st. None)"
| "exct (Suc n) h = doExct h (exct n h)"

text \<open>The state before a score runs, and a host.\<close>

definition minc_init :: minc where
  "minc_init =
     \<lparr>scopes = [[]], call_frames = 0, sMincList = [], list_stack = [], sArgListLen = 0,
      sArgListIndex = 0, inCalledFunctionArgList = False, sCalledFunctions = [],
      sFunctionCallDepth = 0, sMincWarningLevel = 2, diags = []\<rparr>"

definition host_with :: "(string \<times> MincFunction option) list \<Rightarrow> host" where
  "host_with fs =
     \<lparr>function_symbols = fs, dispatch = (\<lambda>name args. (0, MVoid)),
      truth = (\<lambda>v. case v of MFloat x \<Rightarrow> \<not> fp_eq x (Finite 0) | _ \<Rightarrow> False),
      die_returns = False, fail_on_undefined = False, MAXSTACK = 15, MAXDISPARGS = 1024,
      FUNCTION_NOT_FOUND = 1, MincNoDefaultedArgWarnings = 1\<rparr>"

subsection \<open>Example functions\<close>

text \<open>
  Three functions: \<^verbatim>\<open>f()\<close>, whose body is \<^verbatim>\<open>while (1) { { if (1) return 7 } }\<close>;
  \<^verbatim>\<open>g(float x)\<close>, whose body is the block \<^verbatim>\<open>{ f() }\<close>; and \<^verbatim>\<open>k(float x, string s)\<close>.
\<close>

definition example_body :: Node where
  "example_body =
     NodeFuncBodySeq
       (NodeWhile (NodeConstf (Finite 1))
          (NodeBlock (NodeBlock (NodeIf (NodeConstf (Finite 1)) (NodeRet (NodeConstf (Finite 7)))))))
       (NodeRet (NodeConstf (Finite 0)))"

definition example_host :: host where
  "example_host =
     host_with
       [(''f'', Some (MincFunction NodeEmptyListElem example_body)),
        (''g'', Some (MincFunction (NodeArgListElem NodeEmptyListElem (NodeDecl ''x'' MincFloatType))
                       (NodeBlock (NodeCall ''f'' [])))),
        (''k'', Some (MincFunction
                       (NodeArgListElem (NodeArgListElem NodeEmptyListElem (NodeDecl ''x'' MincFloatType))
                          (NodeDecl ''s'' MincStringType))
                       (NodeFuncBodySeq NodeNoop (NodeConstf (Finite 3)))))]"

text \<open>
  A function of two arguments called with one: the second is defaulted, with a warning,
  and the call goes on.
\<close>

lemma missing_argument_defaulted: "map_option (\<lambda>(x, s). (x, diags s))
   (exct 12 (example_host\<lparr>function_symbols := [(''k'', Some (MincFunction
                       (NodeArgListElem (NodeArgListElem NodeEmptyListElem (NodeDecl ''x'' MincFloatType))
                          (NodeDecl ''s'' MincStringType))
                       (NodeFuncBodySeq NodeNoop (NodeBlock NodeNoop))))]\<rparr>) (NodeCall ''k'' [NodeConstf (Finite 1)]) minc_init)
   = Some (Value MVoid, [Warn ''%s(): arg %d (%s) not provided - defaulting to 0''])"
  by code_simp

subsection \<open>The number of arguments\<close>

text \<open>
  Claim C8 against the code. The comparison of the number of arguments passed with the
  number declared is in \<^verbatim>\<open>NodeArgListElem::doExct\<close> only. The argument list of \<^verbatim>\<open>f()\<close> has no
  such element, and the call \<^verbatim>\<open>f(1, 2)\<close> ends with the value of \<^verbatim>\<open>f\<close> and no report; the
  same call of \<^verbatim>\<open>g(float x)\<close> ends in \<^verbatim>\<open>minc_die\<close>.
\<close>

theorem zero_argument_function_arity_unchecked:
  "map_option (\<lambda>(x, s). (x, diags s))
     (exct 12 example_host (NodeCall ''f'' [NodeConstf (Finite 1), NodeConstf (Finite 2)]) minc_init)
   = Some (Value (MFloat (Finite 7)), []) \<and>
   map_option (\<lambda>(x, s). (x, diags s))
     (exct 12 example_host (NodeCall ''g'' [NodeConstf (Finite 1), NodeConstf (Finite 2)]) minc_init)
   = Some (ThrowDie, [Die ''%s() takes %d arguments but was passed %d!''])"
  by code_simp

end
